theory Spec2Isabelle
  imports Complex_Main "HOL-Library.Log_Nat" "HOL-Library.AList"
begin

section \<open>Text: characters, stripping, splitting, lines\<close>

text \<open>
  Python strings are sequences of code points; the model covers the code points below 256,
  one \<^typ>\<open>char\<close> each.  A source file's text is what
  \<^verbatim>\<open>open(file_path, 'r', encoding='utf-8', errors='ignore')\<close> decodes.
\<close>

type_synonym path = string

abbreviation TAB :: char where "TAB \<equiv> CHR 0x09"
abbreviation LF :: char where "LF \<equiv> CHR 0x0A"
abbreviation CR :: char where "CR \<equiv> CHR 0x0D"

text \<open>\<^verbatim>\<open>str.isspace\<close> on the code points below 256.\<close>

definition str_isspace :: "char \<Rightarrow> bool" where
  "str_isspace c \<longleftrightarrow> c \<in> set [CHR 0x09, CHR 0x0A, CHR 0x0B, CHR 0x0C, CHR 0x0D,
     CHR 0x1C, CHR 0x1D, CHR 0x1E, CHR 0x1F, CHR 0x20, CHR 0x85, CHR 0xA0]"

text \<open>\<^verbatim>\<open>s.strip()\<close>\<close>

definition strip :: "string \<Rightarrow> string" where
  "strip s = rev (dropWhile str_isspace (rev (dropWhile str_isspace s)))"

text \<open>\<^verbatim>\<open>s.split(sep)\<close> for a one-character separator: never an empty list.\<close>

fun split_on :: "char \<Rightarrow> string \<Rightarrow> string list" where
  "split_on sep [] = [[]]"
| "split_on sep (c # cs) =
     (if c = sep then [] # split_on sep cs
      else (case split_on sep cs of
              [] \<Rightarrow> [[c]]
            | w # ws \<Rightarrow> (c # w) # ws))"

text \<open>
  Text mode with the default \<^verbatim>\<open>newline=None\<close>: \<^verbatim>\<open>\r\n\<close> and a lone
  \<^verbatim>\<open>\r\<close> are read as \<^verbatim>\<open>\n\<close>.
\<close>

fun universal_newlines :: "string \<Rightarrow> string" where
  "universal_newlines [] = []"
| "universal_newlines [c] = [if c = CR then LF else c]"
| "universal_newlines (c # d # ds) =
     (if c = CR \<and> d = LF then LF # universal_newlines ds
      else if c = CR then LF # universal_newlines (d # ds)
      else c # universal_newlines (d # ds))"

text \<open>Lines with their terminator kept; the last line may lack one.\<close>

fun split_lines :: "string \<Rightarrow> string list" where
  "split_lines [] = []"
| "split_lines (c # cs) =
     (if c = LF then [LF] # split_lines cs
      else (case split_lines cs of
              [] \<Rightarrow> [[c]]
            | l # ls \<Rightarrow> (c # l) # ls))"

text \<open>\<^verbatim>\<open>f.readlines()\<close> on the decoded text of a file.\<close>

definition readlines :: "string \<Rightarrow> string list" where
  "readlines text = split_lines (universal_newlines text)"

text \<open>\<^verbatim>\<open>s.endswith(suffix)\<close>\<close>

definition endswith :: "string \<Rightarrow> string \<Rightarrow> bool" where
  "endswith s suf \<longleftrightarrow> length suf \<le> length s \<and> drop (length s - length suf) s = suf"

section \<open>Exceptions\<close>

datatype exn =
    ValueError
  | OverflowError
  | FileNotFoundError
  | PermissionError
  | IsADirectoryError
  | FileExistsError

section \<open>Floating-point numbers: \<^verbatim>\<open>float(str)\<close>\<close>

text \<open>
  A Python float is an IEEE 754 double: a rational that is exactly representable, an
  infinity, or NaN.  (The sign of zero is not kept: nothing below depends on it.)
\<close>

datatype pyfloat = Finite rat | PosInf | NegInf | NaN

definition round_half_even :: "'a::floor_ceiling \<Rightarrow> int" where
  "round_half_even x =
     (let f = \<lfloor>x\<rfloor>; r = x - of_int f
      in if r < 1 / 2 then f
         else if 1 / 2 < r then f + 1
         else if even f then f else f + 1)"

text \<open>\<open>\<lfloor>log\<^sub>2 q\<rfloor>\<close> for a positive rational.\<close>

definition floor_log2 :: "rat \<Rightarrow> int" where
  "floor_log2 q =
     (let (n, d) = quotient_of q; k = bitlen n - bitlen d
      in if 2 powi k \<le> q then k else k - 1)"

text \<open>
  The nearest number with a 53-bit significand and an exponent no smaller than the
  subnormal one, ties to even: the result of every correctly rounded double operation,
  before the overflow check.
\<close>

definition round_significand :: "rat \<Rightarrow> rat" where
  "round_significand q =
     (if q = 0 then 0
      else let a = \<bar>q\<bar>;
               e = max (floor_log2 a) (- 1022);
               u = 2 powi (e - 52);
               m = of_int (round_half_even (a / u)) * u
           in if q < 0 then - m else m)"

definition round_double :: "rat \<Rightarrow> pyfloat" where
  "round_double q =
     (let m = round_significand q
      in if 2 ^ 1024 \<le> m then PosInf
         else if m \<le> - (2 ^ 1024) then NegInf
         else Finite m)"

definition is_digit :: "char \<Rightarrow> bool" where
  "is_digit c \<longleftrightarrow> c \<in> set ''0123456789''"

definition digit_val :: "char \<Rightarrow> nat" where
  "digit_val c = length (takeWhile (\<lambda>d. d \<noteq> c) ''0123456789'')"

definition digits_val :: "string \<Rightarrow> nat" where
  "digits_val ds = foldl (\<lambda>acc c. 10 * acc + digit_val c) 0 ds"

text \<open>
  Underscores in a numeric literal: each must stand between two digits; they are
  removed before parsing.  The first argument is the previous character.
\<close>

fun drop_underscores :: "char \<Rightarrow> string \<Rightarrow> string option" where
  "drop_underscores prev [] = (if prev = CHR ''_'' then None else Some [])"
| "drop_underscores prev (c # cs) =
     (if c = CHR ''_'' then (if is_digit prev then drop_underscores c cs else None)
      else if prev = CHR ''_'' \<and> \<not> is_digit c then None
      else map_option ((#) c) (drop_underscores c cs))"

text \<open>
  Before parsing, \<^verbatim>\<open>float\<close> turns the non-ASCII spaces into blanks, then strips
  the ASCII whitespace at both ends.
\<close>

definition float_blank :: "char \<Rightarrow> char" where
  "float_blank c = (if c = CHR 0x85 \<or> c = CHR 0xA0 then CHR 0x20 else c)"

definition ascii_isspace :: "char \<Rightarrow> bool" where
  "ascii_isspace c \<longleftrightarrow> c \<in> set [CHR 0x09, CHR 0x0A, CHR 0x0B, CHR 0x0C, CHR 0x0D, CHR 0x20]"

definition ascii_lower :: "char \<Rightarrow> char" where
  "ascii_lower c =
     (case map_of (zip ''ABCDEFGHIJKLMNOPQRSTUVWXYZ'' ''abcdefghijklmnopqrstuvwxyz'') c of
        None \<Rightarrow> c | Some l \<Rightarrow> l)"

text \<open>An optional sign: whether it is a minus, and the rest.\<close>

fun take_sign :: "string \<Rightarrow> bool \<times> string" where
  "take_sign [] = (False, [])"
| "take_sign (c # cs) =
     (if c = CHR ''-'' then (True, cs)
      else if c = CHR ''+'' then (False, cs)
      else (False, c # cs))"

text \<open>
  The exponent part: empty, or \<^verbatim>\<open>e\<close>/\<^verbatim>\<open>E\<close>, an optional sign and at least
  one digit, up to the end of the string.
\<close>

definition parse_exponent :: "string \<Rightarrow> int option" where
  "parse_exponent s =
     (case s of
        [] \<Rightarrow> Some 0
      | c # cs \<Rightarrow>
          if c = CHR ''e'' \<or> c = CHR ''E'' then
            (let (neg, ds) = take_sign cs
             in if ds \<noteq> [] \<and> list_all is_digit ds
                then Some (if neg then - int (digits_val ds) else int (digits_val ds))
                else None)
          else None)"

text \<open>
  The decimal grammar: digits, an optional point and digits, at least one digit in all,
  an optional exponent.  The value is exact.
\<close>

definition parse_decimal :: "string \<Rightarrow> rat option" where
  "parse_decimal s =
     (let ip = takeWhile is_digit s;
          r1 = dropWhile is_digit s;
          fp = (case r1 of [] \<Rightarrow> [] | c # cs \<Rightarrow> if c = CHR ''.'' then takeWhile is_digit cs else []);
          r2 = (case r1 of [] \<Rightarrow> [] | c # cs \<Rightarrow> if c = CHR ''.'' then dropWhile is_digit cs else r1)
      in if ip = [] \<and> fp = [] then None
         else case parse_exponent r2 of
                None \<Rightarrow> None
              | Some ex \<Rightarrow>
                  (let e10 = ex - int (length fp);
                       m = of_nat (digits_val (ip @ fp))
                   in Some (if 0 \<le> e10 then m * 10 ^ nat e10 else m / 10 ^ nat (- e10))))"

text \<open>
  \<^verbatim>\<open>float(s)\<close> for a string: ValueError is the only exception; a decimal too
  large for a double is an infinity.
\<close>

definition py_float :: "string \<Rightarrow> exn + pyfloat" where
  "py_float s =
     (case drop_underscores (CHR 0x00) (map float_blank s) of
        None \<Rightarrow> Inl ValueError
      | Some t \<Rightarrow>
          (let u = rev (dropWhile ascii_isspace (rev (dropWhile ascii_isspace t)));
               (neg, body) = take_sign u;
               low = map ascii_lower body
           in if low = ''inf'' \<or> low = ''infinity'' then Inr (if neg then NegInf else PosInf)
              else if low = ''nan'' then Inr NaN
              else case parse_decimal body of
                     None \<Rightarrow> Inl ValueError
                   | Some q \<Rightarrow> Inr (round_double (if neg then - q else q))))"

section \<open>Dates and times: \<^verbatim>\<open>datetime\<close> and \<^verbatim>\<open>timedelta\<close>\<close>

record datetime =
  year :: int
  month :: int
  day :: int
  hour :: int
  minute :: int
  second :: int
  microsecond :: int

definition trunc :: "rat \<Rightarrow> int" where
  "trunc x = (if 0 \<le> x then \<lfloor>x\<rfloor> else \<lceil>x\<rceil>)"

text \<open>
  \<^verbatim>\<open>timedelta(seconds=x)\<close> for a float, as a number of microseconds.  The
  whole seconds are exact; the fraction is multiplied by \<open>10\<^sup>6\<close> in double
  arithmetic and rounded half to even.  NaN is a ValueError, an infinity or more than
  999999999 days an OverflowError.
\<close>

definition timedelta_seconds :: "pyfloat \<Rightarrow> exn + int" where
  "timedelta_seconds x =
     (case x of
        NaN \<Rightarrow> Inl ValueError
      | PosInf \<Rightarrow> Inl OverflowError
      | NegInf \<Rightarrow> Inl OverflowError
      | Finite d \<Rightarrow>
          (let intpart = trunc d;
               fracpart = d - of_int intpart;
               us = intpart * 1000000 + round_half_even (round_significand (fracpart * 1000000))
           in if \<bar>us div 86400000000\<bar> \<le> 999999999 then Inr us else Inl OverflowError))"

text \<open>The proleptic Gregorian calendar, as the \<^verbatim>\<open>datetime\<close> module counts it.\<close>

definition is_leap :: "int \<Rightarrow> bool" where
  "is_leap y \<longleftrightarrow> y mod 4 = 0 \<and> (y mod 100 \<noteq> 0 \<or> y mod 400 = 0)"

definition days_before_year :: "int \<Rightarrow> int" where
  "days_before_year y = (y - 1) * 365 + (y - 1) div 4 - (y - 1) div 100 + (y - 1) div 400"

definition DAYS_IN_MONTH :: "int list" where
  "DAYS_IN_MONTH = [- 1, 31, 28, 31, 30, 31, 30, 31, 31, 30, 31, 30, 31]"

definition DAYS_BEFORE_MONTH :: "int list" where
  "DAYS_BEFORE_MONTH = [- 1, 0, 31, 59, 90, 120, 151, 181, 212, 243, 273, 304, 334]"

definition days_before_month :: "int \<Rightarrow> int \<Rightarrow> int" where
  "days_before_month y m = DAYS_BEFORE_MONTH ! nat m + (if 2 < m \<and> is_leap y then 1 else 0)"

definition ymd2ord :: "int \<Rightarrow> int \<Rightarrow> int \<Rightarrow> int" where
  "ymd2ord y m d = days_before_year y + days_before_month y m + d"

definition ord2ymd :: "int \<Rightarrow> int \<times> int \<times> int" where
  "ord2ymd ordinal =
     (let n0 = ordinal - 1;
          n400 = n0 div 146097; n1 = n0 mod 146097;
          n100 = n1 div 36524; n2 = n1 mod 36524;
          n4 = n2 div 1461; n3 = n2 mod 1461;
          n1y = n3 div 365; n = n3 mod 365;
          y = n400 * 400 + 1 + n100 * 100 + n4 * 4 + n1y
      in if n1y = 4 \<or> n100 = 4 then (y - 1, 12, 31)
         else let leapyear = (n1y = 3 \<and> (n4 \<noteq> 24 \<or> n100 = 3));
                  m = (n + 50) div 32;
                  preceding = DAYS_BEFORE_MONTH ! nat m + (if 2 < m \<and> leapyear then 1 else 0)
              in if n < preceding
                 then (y, m - 1,
                       n - (preceding - (DAYS_IN_MONTH ! nat (m - 1)
                              + (if m - 1 = 2 \<and> leapyear then 1 else 0))) + 1)
                 else (y, m, n - preceding + 1))"

text \<open>The ordinal of 9999-12-31, the last day a \<^verbatim>\<open>datetime\<close> can hold.\<close>

definition MAXORDINAL :: int where
  "MAXORDINAL = 3652059"

text \<open>Microseconds since the start of day 0, and back; out of range is an error.\<close>

definition datetime_us :: "datetime \<Rightarrow> int" where
  "datetime_us t =
     ((ymd2ord (year t) (month t) (day t) * 86400
        + hour t * 3600 + minute t * 60 + second t) * 1000000) + microsecond t"

definition us_datetime :: "exn \<Rightarrow> int \<Rightarrow> exn + datetime" where
  "us_datetime e us =
     (let ordinal = us div 86400000000;
          r = us mod 86400000000
      in if ordinal < 1 \<or> MAXORDINAL < ordinal then Inl e
         else let (y, m, d) = ord2ymd ordinal
              in Inr \<lparr>year = y, month = m, day = d,
                      hour = r div 3600000000,
                      minute = (r div 60000000) mod 60,
                      second = (r div 1000000) mod 60,
                      microsecond = r mod 1000000\<rparr>)"

text \<open>\<^verbatim>\<open>base_time + timedelta\<close>: "date value out of range" is an OverflowError.\<close>

definition datetime_add :: "datetime \<Rightarrow> int \<Rightarrow> exn + datetime" where
  "datetime_add t delta = us_datetime OverflowError (datetime_us t + delta)"

text \<open>
  \<^verbatim>\<open>datetime.fromtimestamp(ts)\<close>: the timestamp is rounded half to even to a
  microsecond.  The local time zone is taken to be UTC; a year outside 1..9999 is a
  ValueError.  Day 719163 is 1970-01-01.
\<close>

definition fromtimestamp :: "real \<Rightarrow> exn + datetime" where
  "fromtimestamp ts = us_datetime ValueError (719163 * 86400000000 + round_half_even (ts * 1000000))"

text \<open>A number in a fixed count of decimal digits, zero padded.\<close>

definition digit_char :: "int \<Rightarrow> char" where
  "digit_char d = ''0123456789'' ! nat (d mod 10)"

definition zero_pad :: "nat \<Rightarrow> int \<Rightarrow> string" where
  "zero_pad w k = map (\<lambda>i. digit_char (k div 10 ^ i)) (rev [0..<w])"

text \<open>\<^verbatim>\<open>t.strftime("%d/%m/%Y %H:%M:%S.%f")\<close>, \<^verbatim>\<open>"%Y"\<close> and \<^verbatim>\<open>"%Y_%m_%d"\<close>\<close>

definition strftime_epic :: "datetime \<Rightarrow> string" where
  "strftime_epic t =
     zero_pad 2 (day t) @ ''/'' @ zero_pad 2 (month t) @ ''/'' @ zero_pad 4 (year t) @ '' '' @
     zero_pad 2 (hour t) @ '':'' @ zero_pad 2 (minute t) @ '':'' @ zero_pad 2 (second t) @ ''.'' @
     zero_pad 6 (microsecond t)"

definition strftime_year :: "datetime \<Rightarrow> string" where
  "strftime_year t = zero_pad 4 (year t)"

definition strftime_date :: "datetime \<Rightarrow> string" where
  "strftime_date t = zero_pad 4 (year t) @ ''_'' @ zero_pad 2 (month t) @ ''_'' @ zero_pad 2 (day t)"

section \<open>The file system\<close>

text \<open>
  A path names at most one node: a regular file with its text, or a directory.  The
  paths in \<open>denied\<close> are those the process may not touch: every system call on them
  fails with PermissionError.  The tree is flat: a directory's ancestors are not separate
  nodes.  Times are seconds since the epoch.
\<close>

datatype kind = Regular string | Directory

record node =
  kind :: kind
  ctime :: real
  mtime :: real

record filesystem =
  nodes :: "path \<rightharpoonup> node"
  denied :: "path set"

definition stat :: "filesystem \<Rightarrow> path \<Rightarrow> exn + node" where
  "stat fs p =
     (if p \<in> denied fs then Inl PermissionError
      else case nodes fs p of None \<Rightarrow> Inl FileNotFoundError | Some n \<Rightarrow> Inr n)"

text \<open>\<^verbatim>\<open>os.path.getmtime\<close>, \<^verbatim>\<open>os.path.getctime\<close>\<close>

definition getmtime :: "filesystem \<Rightarrow> path \<Rightarrow> exn + real" where
  "getmtime fs p = map_sum id mtime (stat fs p)"

definition getctime :: "filesystem \<Rightarrow> path \<Rightarrow> exn + real" where
  "getctime fs p = map_sum id ctime (stat fs p)"

text \<open>\<^verbatim>\<open>os.path.isfile\<close>: false on any failure of the underlying stat.\<close>

definition isfile :: "filesystem \<Rightarrow> path \<Rightarrow> bool" where
  "isfile fs p =
     (case stat fs p of
        Inl e \<Rightarrow> False
      | Inr n \<Rightarrow> (case kind n of Regular t \<Rightarrow> True | Directory \<Rightarrow> False))"

text \<open>Opening a file for reading and taking its whole text.\<close>

definition read_text :: "filesystem \<Rightarrow> path \<Rightarrow> exn + string" where
  "read_text fs p =
     (case stat fs p of
        Inl e \<Rightarrow> Inl e
      | Inr n \<Rightarrow> (case kind n of Regular t \<Rightarrow> Inr t | Directory \<Rightarrow> Inl IsADirectoryError))"

text \<open>\<^verbatim>\<open>os.makedirs(d, exist_ok=True)\<close> at time \<open>now\<close>.\<close>

definition makedirs :: "filesystem \<Rightarrow> real \<Rightarrow> path \<Rightarrow> exn + filesystem" where
  "makedirs fs now d =
     (if d \<in> denied fs then Inl PermissionError
      else case nodes fs d of
             None \<Rightarrow> Inr (fs\<lparr>nodes := (nodes fs)(d \<mapsto> \<lparr>kind = Directory, ctime = now, mtime = now\<rparr>)\<rparr>)
           | Some n \<Rightarrow> (case kind n of Directory \<Rightarrow> Inr fs | Regular t \<Rightarrow> Inl FileExistsError))"

text \<open>
  Opening a file in mode \<^verbatim>\<open>'a'\<close> at time \<open>now\<close>, writing \<open>text\<close> at its end and
  closing it.  A missing file is created; what a file held stays in front.
\<close>

definition append_text :: "filesystem \<Rightarrow> real \<Rightarrow> path \<Rightarrow> string \<Rightarrow> exn + filesystem" where
  "append_text fs now p text =
     (if p \<in> denied fs then Inl PermissionError
      else case nodes fs p of
             None \<Rightarrow> Inr (fs\<lparr>nodes := (nodes fs)(p \<mapsto> \<lparr>kind = Regular text, ctime = now, mtime = now\<rparr>)\<rparr>)
           | Some n \<Rightarrow>
               (case kind n of
                  Directory \<Rightarrow> Inl IsADirectoryError
                | Regular old \<Rightarrow>
                    Inr (fs\<lparr>nodes := (nodes fs)(p \<mapsto>
                           n\<lparr>kind := Regular (old @ text),
                             mtime := (if text = [] then mtime n else now)\<rparr>)\<rparr>)))"

text \<open>\<^verbatim>\<open>os.path.join(a, b)\<close> with the separator \<^verbatim>\<open>/\<close>.\<close>

definition path_join :: "path \<Rightarrow> path \<Rightarrow> path" where
  "path_join a b =
     (if b \<noteq> [] \<and> hd b = CHR ''/'' then b
      else if a = [] \<or> last a = CHR ''/'' then a @ b
      else a @ ''/'' @ b)"

section \<open>The log\<close>

text \<open>One constructor for each logging call of the program, with the values it formats.\<close>

datatype log_entry =
    Info_Detected path
  | Info_Checking path real
  | Info_Processing path
  | Info_Appended nat path
  | Warning_Skipping string path
  | Warning_Disappeared path
  | Error_Failed_to_convert path exn
  | Error_Processing path exn

datatype level = INFO | WARNING | ERROR

fun level_of :: "log_entry \<Rightarrow> level" where
  "level_of (Info_Detected p) = INFO"
| "level_of (Info_Checking p t) = INFO"
| "level_of (Info_Processing p) = INFO"
| "level_of (Info_Appended n p) = INFO"
| "level_of (Warning_Skipping l p) = WARNING"
| "level_of (Warning_Disappeared p) = WARNING"
| "level_of (Error_Failed_to_convert p e) = ERROR"
| "level_of (Error_Processing p e) = ERROR"

section \<open>\<^verbatim>\<open>convert_lr_to_epic\<close>\<close>

text \<open>
  The body of the loop over the lines.  A line that does not split into two parts is
  passed over by \<^verbatim>\<open>continue\<close>; a ValueError is caught inside the loop; any other
  exception leaves the loop.
\<close>

datatype line_result = Skipped | Invalid | Converted string | Raised exn

definition on_error :: "exn \<Rightarrow> line_result" where
  "on_error e = (if e = ValueError then Invalid else Raised e)"

definition convert_line :: "datetime \<Rightarrow> string \<Rightarrow> line_result" where
  "convert_line base_time line =
     (case split_on TAB (strip line) of
        [p0, p1] \<Rightarrow>
          (case py_float p0 of
             Inl e \<Rightarrow> on_error e
           | Inr time_offset \<Rightarrow>
               (let intensity = p1
                in case timedelta_seconds time_offset of
                     Inl e \<Rightarrow> on_error e
                   | Inr delta \<Rightarrow>
                       (case datetime_add base_time delta of
                          Inl e \<Rightarrow> on_error e
                        | Inr new_time \<Rightarrow>
                            Converted (strftime_epic new_time @ '','' @ intensity @ [LF]))))
      | parts \<Rightarrow> Skipped)"

fun convert_lines ::
  "datetime \<Rightarrow> path \<Rightarrow> string list \<Rightarrow> string list \<Rightarrow> log_entry list
     \<Rightarrow> (exn + string list) \<times> log_entry list" where
  "convert_lines base_time file_path [] converted_lines lg = (Inr converted_lines, lg)"
| "convert_lines base_time file_path (line # lines) converted_lines lg =
     (case convert_line base_time line of
        Skipped \<Rightarrow> convert_lines base_time file_path lines converted_lines lg
      | Invalid \<Rightarrow>
          convert_lines base_time file_path lines converted_lines
            (lg @ [Warning_Skipping (strip line) file_path])
      | Converted converted_line \<Rightarrow>
          convert_lines base_time file_path lines (converted_lines @ [converted_line]) lg
      | Raised e \<Rightarrow> (Inl e, lg))"

definition header :: string where
  "header = ''EPIC LR Log File'' @ [LF, LF] @ ''Date,LR'' @ [LF]"

text \<open>The output directory and the output file for a conversion at local time \<open>now\<close>.\<close>

definition dated_output_dir :: "path \<Rightarrow> datetime \<Rightarrow> path" where
  "dated_output_dir output_base_dir now =
     (let year_str = strftime_year now;
          date_str = strftime_date now
      in path_join (path_join output_base_dir year_str) date_str)"

definition output_file_path :: "path \<Rightarrow> datetime \<Rightarrow> path" where
  "output_file_path output_base_dir now = path_join (dated_output_dir output_base_dir now) ''LR.txt''"

text \<open>
  The \<^verbatim>\<open>try\<close> block: the exception that ends it, if any, with the file system and
  the log as they are at that point.  \<open>now\<close> is the clock when the conversion runs.
\<close>

definition convert_try ::
  "filesystem \<Rightarrow> real \<Rightarrow> path \<Rightarrow> path \<Rightarrow> exn option \<times> filesystem \<times> log_entry list" where
  "convert_try fs now file_path output_base_dir =
     (case getctime fs file_path of
        Inl e \<Rightarrow> (Some e, fs, [])
      | Inr c \<Rightarrow>
     (case fromtimestamp c of
        Inl e \<Rightarrow> (Some e, fs, [])
      | Inr base_time \<Rightarrow>
     (case read_text fs file_path of
        Inl e \<Rightarrow> (Some e, fs, [])
      | Inr text \<Rightarrow>
     (case convert_lines base_time file_path (readlines text) [] [] of
        (Inl e, lg) \<Rightarrow> (Some e, fs, lg)
      | (Inr converted_lines, lg) \<Rightarrow>
     (case fromtimestamp now of
        Inl e \<Rightarrow> (Some e, fs, lg)
      | Inr now_dt \<Rightarrow>
     (case makedirs fs now (dated_output_dir output_base_dir now_dt) of
        Inl e \<Rightarrow> (Some e, fs, lg)
      | Inr fs1 \<Rightarrow>
     (let out = output_file_path output_base_dir now_dt;
          file_exists = isfile fs1 out
      in case append_text fs1 now out
                ((if \<not> file_exists then header else []) @ concat converted_lines) of
           Inl e \<Rightarrow> (Some e, fs1, lg)
         | Inr fs2 \<Rightarrow>
             (None, fs2, lg @ [Info_Appended (length converted_lines) out]))))))))"

text \<open>The whole function: \<^verbatim>\<open>except Exception\<close> logs the failure and returns.\<close>

definition convert_lr_to_epic ::
  "filesystem \<Rightarrow> real \<Rightarrow> path \<Rightarrow> path \<Rightarrow> filesystem \<times> log_entry list" where
  "convert_lr_to_epic fs now file_path output_base_dir =
     (case convert_try fs now file_path output_base_dir of
        (None, fs', lg) \<Rightarrow> (fs', lg)
      | (Some e, fs', lg) \<Rightarrow> (fs', lg @ [Error_Failed_to_convert file_path e]))"

section \<open>\<^verbatim>\<open>LRMetaDataHandler\<close>\<close>

text \<open>
  \<open>file_timestamps\<close> is iterated, so it keeps the order of a Python dict: a new key goes
  to the end, a stored key keeps its place (\<^const>\<open>AList.update\<close>), and
  \<^verbatim>\<open>pop(key, None)\<close> is \<^const>\<open>AList.delete\<close>.  \<open>processed_mtimes\<close> is only
  looked up and stored.
\<close>

record handler =
  output_dir :: path
  inactivity_period :: real
  file_timestamps :: "(path \<times> real) list"
  processed_mtimes :: "path \<rightharpoonup> real"

record event =
  is_directory :: bool
  src_path :: path

definition init_handler :: "path \<Rightarrow> real \<Rightarrow> handler" where
  "init_handler od ip =
     \<lparr>output_dir = od, inactivity_period = ip, file_timestamps = [], processed_mtimes = Map.empty\<rparr>"

text \<open>\<^verbatim>\<open>_should_track\<close>: only FileNotFoundError is caught.\<close>

definition should_track :: "handler \<Rightarrow> filesystem \<Rightarrow> path \<Rightarrow> exn + bool" where
  "should_track h fs p =
     (case getmtime fs p of
        Inl e \<Rightarrow> (if e = FileNotFoundError then Inr False else Inl e)
      | Inr m \<Rightarrow>
          (let last = (case processed_mtimes h p of None \<Rightarrow> 0 | Some l \<Rightarrow> l)
           in Inr (last < m)))"

text \<open>
  The callbacks, at clock \<open>now\<close>.  \<^verbatim>\<open>and\<close> evaluates \<^verbatim>\<open>_should_track\<close> only
  for a path that ends in \<^verbatim>\<open>.dat\<close>.
\<close>

definition on_created ::
  "handler \<Rightarrow> filesystem \<Rightarrow> real \<Rightarrow> event \<Rightarrow> exn + handler \<times> log_entry list" where
  "on_created h fs now ev =
     (if is_directory ev then Inr (h, [])
      else if endswith (src_path ev) ''.dat'' then
        (case should_track h fs (src_path ev) of
           Inl e \<Rightarrow> Inl e
         | Inr track \<Rightarrow>
             if track
             then Inr (h\<lparr>file_timestamps := AList.update (src_path ev) now (file_timestamps h)\<rparr>,
                       [Info_Detected (src_path ev)])
             else Inr (h, []))
      else Inr (h, []))"

definition on_modified ::
  "handler \<Rightarrow> filesystem \<Rightarrow> real \<Rightarrow> event \<Rightarrow> exn + handler \<times> log_entry list" where
  "on_modified h fs now ev =
     (if is_directory ev then Inr (h, [])
      else if endswith (src_path ev) ''.dat'' then
        (case should_track h fs (src_path ev) of
           Inl e \<Rightarrow> Inl e
         | Inr track \<Rightarrow>
             if track
             then Inr (h\<lparr>file_timestamps := AList.update (src_path ev) now (file_timestamps h)\<rparr>, [])
             else Inr (h, []))
      else Inr (h, []))"

text \<open>
  \<^verbatim>\<open>check_and_process_files\<close>.  The state it works on: the handler, the file system,
  the log, and the calls made to \<^verbatim>\<open>convert_lr_to_epic\<close>, each with the
  modification time captured just before it.
\<close>

record world =
  hdl :: handler
  fsys :: filesystem
  logged :: "log_entry list"
  converted :: "(path \<times> real) list"

text \<open>The first loop: the paths that have been quiet for longer than the period.\<close>

definition files_to_process :: "handler \<Rightarrow> real \<Rightarrow> path list" where
  "files_to_process h current_time =
     map fst (filter (\<lambda>(file_path, last_modified).
                        inactivity_period h < current_time - last_modified)
                (file_timestamps h))"

text \<open>
  The body of the second loop, for one path; \<open>now\<close> is the clock during its conversion.
  The outer \<^verbatim>\<open>except Exception\<close> logs and goes on to the next path.
\<close>

definition process_file :: "world \<Rightarrow> real \<Rightarrow> path \<Rightarrow> world" where
  "process_file w now file_path =
     (let w1 = w\<lparr>logged := logged w @ [Info_Processing file_path]\<rparr>
      in case getmtime (fsys w1) file_path of
           Inl e \<Rightarrow>
             if e = FileNotFoundError
             then w1\<lparr>logged := logged w1 @ [Warning_Disappeared file_path],
                     hdl := (hdl w1)\<lparr>file_timestamps :=
                               AList.delete file_path (file_timestamps (hdl w1))\<rparr>\<rparr>
             else w1\<lparr>logged := logged w1 @ [Error_Processing file_path e]\<rparr>
         | Inr latest_mtime \<Rightarrow>
             (let (fs', lg) = convert_lr_to_epic (fsys w1) now file_path (output_dir (hdl w1))
              in w1\<lparr>fsys := fs',
                     logged := logged w1 @ lg,
                     converted := converted w1 @ [(file_path, latest_mtime)],
                     hdl := (hdl w1)\<lparr>
                       processed_mtimes := (processed_mtimes (hdl w1))(file_path \<mapsto> latest_mtime),
                       file_timestamps := AList.delete file_path (file_timestamps (hdl w1))\<rparr>\<rparr>))"

fun process_files :: "world \<Rightarrow> (path \<Rightarrow> real) \<Rightarrow> path list \<Rightarrow> world" where
  "process_files w clock [] = w"
| "process_files w clock (file_path # rest) =
     process_files (process_file w (clock file_path) file_path) clock rest"

text \<open>
  One poll: \<open>current_time\<close> is \<^verbatim>\<open>time.time()\<close> at its start, \<open>clock p\<close> the time
  at which \<open>p\<close> is converted.
\<close>

definition check_and_process_files :: "world \<Rightarrow> real \<Rightarrow> (path \<Rightarrow> real) \<Rightarrow> world" where
  "check_and_process_files w current_time clock =
     (let checks = map (\<lambda>(file_path, last_modified). Info_Checking file_path last_modified)
                     (file_timestamps (hdl w));
          ready = files_to_process (hdl w) current_time
      in process_files (w\<lparr>logged := logged w @ checks\<rparr>) clock ready)"

section \<open>Runs of the watcher\<close>

text \<open>
  What happens to the watcher, one step at a time: the observer delivers an event, the
  main loop polls, or the world outside changes the file system.  An exception raised in
  a callback leaves the handler as it was.
\<close>

datatype step =
    Created event real
  | Modified event real
  | Poll real "path \<Rightarrow> real"
  | Outside filesystem

fun deliver :: "world \<Rightarrow> exn + handler \<times> log_entry list \<Rightarrow> world" where
  "deliver w (Inl e) = w"
| "deliver w (Inr (h, lg)) = w\<lparr>hdl := h, logged := logged w @ lg\<rparr>"

fun apply_step :: "world \<Rightarrow> step \<Rightarrow> world" where
  "apply_step w (Created ev now) = deliver w (on_created (hdl w) (fsys w) now ev)"
| "apply_step w (Modified ev now) = deliver w (on_modified (hdl w) (fsys w) now ev)"
| "apply_step w (Poll current_time clock) = check_and_process_files w current_time clock"
| "apply_step w (Outside fs) = w\<lparr>fsys := fs\<rparr>"

definition run :: "world \<Rightarrow> step list \<Rightarrow> world" where
  "run w steps = foldl apply_step w steps"

text \<open>The worlds a run goes through, the first one included.\<close>

fun worlds :: "world \<Rightarrow> step list \<Rightarrow> world list" where
  "worlds w [] = [w]"
| "worlds w (s # steps) = w # worlds (apply_step w s) steps"

text \<open>The modification times a path is seen with along a list of worlds.\<close>

definition mtimes_seen :: "path \<Rightarrow> world list \<Rightarrow> real list" where
  "mtimes_seen p ws = concat (map (\<lambda>w. case getmtime (fsys w) p of Inl e \<Rightarrow> [] | Inr m \<Rightarrow> [m]) ws)"

definition start :: "path \<Rightarrow> real \<Rightarrow> filesystem \<Rightarrow> world" where
  "start od ip fs = \<lparr>hdl = init_handler od ip, fsys = fs, logged = [], converted = []\<rparr>"

section \<open>Notions used to state the properties\<close>

text \<open>What the watcher holds about one path.\<close>

definition last_activity :: "world \<Rightarrow> path \<Rightarrow> real option" where
  "last_activity w p = map_of (file_timestamps (hdl w)) p"

definition marker :: "world \<Rightarrow> path \<Rightarrow> real option" where
  "marker w p = processed_mtimes (hdl w) p"

text \<open>The marker a path is compared with: zero when it has none.\<close>

definition marker_or_zero :: "world \<Rightarrow> path \<Rightarrow> real" where
  "marker_or_zero w p = (case marker w p of None \<Rightarrow> 0 | Some l \<Rightarrow> l)"

text \<open>The modification times with which a path has been converted, in order.\<close>

definition conversions_of :: "path \<Rightarrow> world \<Rightarrow> real list" where
  "conversions_of p w = map snd (filter (\<lambda>(q, m). q = p) (converted w))"

text \<open>How often the second loop has taken up a path (it logs that first).\<close>

definition dispatches_of :: "path \<Rightarrow> world \<Rightarrow> nat" where
  "dispatches_of p w = count_list (logged w) (Info_Processing p)"

definition view :: "path \<Rightarrow> world \<Rightarrow> real option \<times> real option \<times> real list \<times> nat" where
  "view p w = (last_activity w p, marker w p, conversions_of p w, dispatches_of p w)"

text \<open>What every handler a run can reach satisfies: one entry for a path, and only for
  paths that end in \<^verbatim>\<open>.dat\<close>.\<close>

definition well_formed :: "handler \<Rightarrow> bool" where
  "well_formed h \<longleftrightarrow>
     distinct (map fst (file_timestamps h)) \<and>
     list_all (\<lambda>p. endswith p ''.dat'') (map fst (file_timestamps h))"


section \<open>Concrete file systems and handlers\<close>

text \<open>A path the process may not touch.\<close>

definition fs_locked :: filesystem where
  "fs_locked = \<lparr>nodes = Map.empty, denied = {''a.dat''}\<rparr>"

text \<open>A file last modified at time 50, and a handler that has processed it at that time.\<close>

definition fs_seen :: filesystem where
  "fs_seen = \<lparr>nodes = [''a.dat'' \<mapsto> \<lparr>kind = Regular [], ctime = 10, mtime = 50\<rparr>], denied = {}\<rparr>"

definition h_seen :: handler where
  "h_seen = (init_handler ''out'' 30)\<lparr>processed_mtimes := [''a.dat'' \<mapsto> 50]\<rparr>"

text \<open>
  A tracked file whose conversion cannot write: the dated output directory may not be
  touched.
\<close>

definition fs_unwritable :: filesystem where
  "fs_unwritable =
     \<lparr>nodes = [''a.dat'' \<mapsto> \<lparr>kind = Regular [], ctime = 1704103200, mtime = 1704103300\<rparr>],
      denied = {''out/2024/2024_01_01''}\<rparr>"

definition w_unwritable :: world where
  "w_unwritable =
     \<lparr>hdl = (init_handler ''out'' 30)\<lparr>file_timestamps := [(''a.dat'', 1704103301)]\<rparr>,
      fsys = fs_unwritable, logged = [], converted = []\<rparr>"

text \<open>Two tracked paths, the first of which has no file any more.\<close>

definition w_vanished :: world where
  "w_vanished =
     \<lparr>hdl = (init_handler ''out'' 30)\<lparr>file_timestamps := [(''gone.dat'', 5), (''a.dat'', 6)]\<rparr>,
      fsys = fs_seen, logged = [], converted = []\<rparr>"

text \<open>The time of day 2024-01-01T10:00:00, and two source texts.\<close>

definition t10h :: datetime where
  "t10h = \<lparr>year = 2024, month = 1, day = 1, hour = 10, minute = 0, second = 0, microsecond = 0\<rparr>"




text \<open>
  A source file created at 2024-01-01T10:00:00 with the one line \<open>2.5\tHIGH\<close>, and the
  file system after one and after two conversions of it on that day.
\<close>

definition line_high :: string where
  "line_high = ''01/01/2024 10:00:02.500000,HIGH'' @ [LF]"

definition fs_one :: filesystem where
  "fs_one =
     \<lparr>nodes = [''a.dat'' \<mapsto> \<lparr>kind = Regular (''2.5'' @ [TAB] @ ''HIGH'' @ [LF]),
                              ctime = 1704103200, mtime = 1704103300\<rparr>],
      denied = {}\<rparr>"

definition fs_once :: filesystem where
  "fs_once =
     fs_one\<lparr>nodes := (nodes fs_one)
       (''out/2024/2024_01_01'' \<mapsto> \<lparr>kind = Directory, ctime = 1704103400, mtime = 1704103400\<rparr>,
        ''out/2024/2024_01_01/LR.txt'' \<mapsto>
          \<lparr>kind = Regular (header @ line_high), ctime = 1704103400, mtime = 1704103400\<rparr>)\<rparr>"

definition fs_twice :: filesystem where
  "fs_twice =
     fs_once\<lparr>nodes := (nodes fs_once)
       (''out/2024/2024_01_01/LR.txt'' \<mapsto>
          \<lparr>kind = Regular (header @ line_high @ line_high), ctime = 1704103400, mtime = 1704103500\<rparr>)\<rparr>"

text \<open>
  A watcher with an inactivity period of 20 that has seen a file created at time 100,
  and a run in which the file is written again at 110 and 128, with polls at 125 and 140.
\<close>

definition ev_a :: event where
  "ev_a = \<lparr>is_directory = False, src_path = ''a.dat''\<rparr>"




text \<open>
  The source file written once more, after its first conversion, and the file system
  after the conversion of that revision; and a run with both conversions and, between
  them, an event for the unchanged file.
\<close>

definition fs_touched :: filesystem where
  "fs_touched =
     fs_once\<lparr>nodes := (nodes fs_once)
       (''a.dat'' \<mapsto> \<lparr>kind = Regular (''2.5'' @ [TAB] @ ''HIGH'' @ [LF]),
                      ctime = 1704103200, mtime = 1704103450\<rparr>)\<rparr>"

definition fs_touched_twice :: filesystem where
  "fs_touched_twice =
     fs_touched\<lparr>nodes := (nodes fs_touched)
       (''out/2024/2024_01_01/LR.txt'' \<mapsto>
          \<lparr>kind = Regular (header @ line_high @ line_high), ctime = 1704103400, mtime = 1704103500\<rparr>)\<rparr>"

definition steps_twice :: "step list" where
  "steps_twice =
     [Created ev_a 100, Poll 200 (\<lambda>p. 1704103400), Modified ev_a 210, Poll 300 (\<lambda>p. 1704103400),
      Outside fs_touched, Modified ev_a 310, Poll 400 (\<lambda>p. 1704103500)]"

section \<open>Properties\<close>

subsection \<open>Auxiliary facts: evaluation of dates and paths\<close>

lemmas calendar_defs =
  fromtimestamp_def us_datetime_def datetime_add_def datetime_us_def round_half_even_def
  MAXORDINAL_def ord2ymd_def ymd2ord_def days_before_year_def days_before_month_def is_leap_def
  DAYS_BEFORE_MONTH_def DAYS_IN_MONTH_def Let_def

lemmas format_defs =
  output_file_path_def dated_output_dir_def path_join_def strftime_year_def strftime_date_def strftime_epic_def
  zero_pad_def digit_char_def upt_rec

lemma fromtimestamp_10h:
  "fromtimestamp 1704103200 =
     Inr \<lparr>year = 2024, month = 1, day = 1, hour = 10, minute = 0, second = 0, microsecond = 0\<rparr>"
  by (simp add: calendar_defs)

lemma fromtimestamp_10h03:
  "fromtimestamp 1704103400 =
     Inr \<lparr>year = 2024, month = 1, day = 1, hour = 10, minute = 3, second = 20, microsecond = 0\<rparr>"
  by (simp add: calendar_defs)

subsection \<open>Auxiliary facts: the dispatcher's log\<close>

lemma logged_process_file: "set (logged w) \<subseteq> set (logged (process_file w now p))"
  by (auto simp: process_file_def Let_def split: sum.splits prod.splits)

lemma logged_process_files: "set (logged w) \<subseteq> set (logged (process_files w clock ps))"
proof (induction ps arbitrary: w)
  case Nil
  then show ?case by simp
next
  case (Cons q ps)
  have "set (logged w) \<subseteq> set (logged (process_file w (clock q) q))"
    by (rule logged_process_file)
  also have "\<dots> \<subseteq> set (logged (process_files (process_file w (clock q) q) clock ps))"
    by (rule Cons.IH)
  finally show ?case by simp
qed

lemma processing_logged_first: "Info_Processing p \<in> set (logged (process_file w now p))"
  by (auto simp: process_file_def Let_def split: sum.splits prod.splits)

lemma processing_logged:
  "q \<in> set ps \<Longrightarrow> Info_Processing q \<in> set (logged (process_files w clock ps))"
proof (induction ps arbitrary: w)
  case Nil
  then show ?case by simp
next
  case (Cons r ps)
  show ?case
  proof (cases "q = r")
    case True
    then show ?thesis
      using processing_logged_first [of r w "clock r"]
        logged_process_files [of "process_file w (clock r) r" clock ps]
      by auto
  next
    case False
    with Cons.prems have "q \<in> set ps" by simp
    then show ?thesis using Cons.IH by simp
  qed
qed

subsection \<open>Auxiliary facts: rounding to a double\<close>

lemma bitlen_powi:
  assumes "0 < n"
  shows "(2::rat) powi (bitlen n - 1) \<le> of_int n \<and> of_int n < (2::rat) powi (bitlen n)"
proof -
  from bitlen_bounds[OF assms] have a: "2 ^ nat (bitlen n - 1) \<le> n" and b: "n < 2 ^ nat (bitlen n)" by auto
  have bl: "1 \<le> bitlen n" using assms by (auto simp: bitlen_alt_def)
  have "(2::rat) powi (bitlen n - 1) = 2 ^ nat (bitlen n - 1)" using bl by (simp add: power_int_nonneg_exp)
  also have "\<dots> = of_int (2 ^ nat (bitlen n - 1))" by simp
  also have "\<dots> \<le> of_int n" using a by (simp only: of_int_le_iff)
  finally have A: "(2::rat) powi (bitlen n - 1) \<le> of_int n" .
  have "(of_int n :: rat) < of_int (2 ^ nat (bitlen n))" using b by (simp only: of_int_less_iff)
  also have "\<dots> = 2 powi (bitlen n)" using bl by (simp add: power_int_nonneg_exp)
  finally show ?thesis using A by simp
qed

lemma floor_log2_bounds:
  assumes "0 < q"
  shows "2 powi (floor_log2 q) \<le> q \<and> q < 2 powi (floor_log2 q + 1)"
proof -
  obtain n d where nd: "quotient_of q = (n, d)" by (cases "quotient_of q")
  then have q: "q = of_int n / of_int d" and d: "0 < d" 
    using quotient_of_div quotient_of_denom_pos by auto
  have n: "0 < n" using assms q d by (simp add: zero_less_divide_iff)
  define k where "k = bitlen n - bitlen d"
  note bn = bitlen_powi[OF n] and bd = bitlen_powi[OF d]
  have dpos: "(0::rat) < of_int d" using d by simp
  have up: "q < 2 powi (k + 1)"
  proof -
    have "q < 2 powi (bitlen n) / 2 powi (bitlen d - 1)"
      unfolding q using bn bd dpos n
      by (intro frac_less) auto
    also have "\<dots> = 2 powi (bitlen n - (bitlen d - 1))"
      by (rule power_int_diff[symmetric]) simp
    also have "bitlen n - (bitlen d - 1) = k + 1" by (simp add: k_def)
    finally show ?thesis .
  qed
  have lo: "2 powi (k - 1) < q"
  proof -
    have "(2::rat) powi (k - 1) = 2 powi ((bitlen n - 1) - bitlen d)"
      by (rule arg_cong[where f="\<lambda>x. 2 powi x"]) (simp add: k_def)
    also have "\<dots> = 2 powi (bitlen n - 1) / (2::rat) powi (bitlen d)"
      by (rule power_int_diff) simp
    also have "\<dots> < q" unfolding q using bn bd dpos n
      by (intro frac_less2) auto
    finally show ?thesis .
  qed
  show ?thesis
    using up lo by (auto simp: floor_log2_def nd k_def[symmetric] not_le)
qed

lemma round_half_even_of_int [simp]: "round_half_even (of_int m :: rat) = m"
  by (simp add: round_half_even_def)

lemma round_significand_exact:
  assumes m: "\<bar>m\<bar> < 2 ^ 53" and k: "- 1074 \<le> k"
  shows "round_significand (of_int m * 2 powi k) = of_int m * 2 powi k"
proof (cases "m = 0")
  case True then show ?thesis by (simp add: round_significand_def)
next
  case False
  define q :: rat where "q = of_int m * 2 powi k"
  define a where "a = \<bar>q\<bar>"
  have a: "a = of_int \<bar>m\<bar> * 2 powi k" by (simp add: a_def q_def abs_mult power_int_abs)
  have apos: "0 < a" using False by (simp add: a)
  define e where "e = max (floor_log2 a) (- 1022)"
  have "2 powi (floor_log2 a) \<le> a" using floor_log2_bounds[OF apos] by simp
  also have "a < 2 ^ 53 * 2 powi k"
    unfolding a using m by (intro mult_strict_right_mono) (simp_all add: of_int_less_iff[where 'a=rat, symmetric])
  also have "\<dots> = 2 powi (53 + k)" by (simp add: power_int_add)
  finally have "(2::rat) powi (floor_log2 a) < 2 powi (53 + k)" .
  then have "floor_log2 a < 53 + k"
    using power_int_increasing[of "53 + k" "floor_log2 a" "2::rat"] by (cases "floor_log2 a < 53 + k") auto
  then have ek: "e - 52 \<le> k" using k by (simp add: e_def)
  have "a / 2 powi (e - 52) = of_int \<bar>m\<bar> * 2 powi (k - (e - 52))"
    by (simp add: a power_int_diff)
  also have "\<dots> = of_int (\<bar>m\<bar> * 2 ^ nat (k - (e - 52)))"
    using ek by (simp add: power_int_nonneg_exp)
  finally have r: "round_half_even (a / 2 powi (e - 52)) = \<bar>m\<bar> * 2 ^ nat (k - (e - 52))"
    by (simp only: round_half_even_of_int)
  have bk: "of_int (\<bar>m\<bar> * 2 ^ nat (k - (e - 52))) * 2 powi (e - 52) = a"
  proof -
    have "of_int (\<bar>m\<bar> * 2 ^ nat (k - (e - 52))) * (2::rat) powi (e - 52)
        = of_int \<bar>m\<bar> * (2 powi (k - (e - 52)) * 2 powi (e - 52))"
      using ek by (simp add: power_int_nonneg_exp)
    also have "\<dots> = a" by (simp add: a flip: power_int_add)
    finally show ?thesis .
  qed
  have qn: "q \<noteq> 0" using apos by (simp add: a_def)
  have "round_significand q =
      (if q < 0 then - (of_int (round_half_even (a / 2 powi (e - 52))) * 2 powi (e - 52))
       else of_int (round_half_even (a / 2 powi (e - 52))) * 2 powi (e - 52))"
    using qn by (simp add: round_significand_def Let_def a_def e_def)
  also have "\<dots> = (if q < 0 then - a else a)"
    by (simp only: r bk)
  also have "\<dots> = q" by (simp add: a_def)
  finally show ?thesis by (simp only: q_def)
qed

subsection \<open>Auxiliary facts: parsing and converting particular numbers\<close>

lemma floor_rat_numeral_div [simp]:
  "\<lfloor>numeral a / numeral b :: rat\<rfloor> = numeral a div numeral b"
  using floor_divide_of_int_eq [of "numeral a" "numeral b", where ?'a = rat] by simp

lemma round_half_even_numeral [simp]: "round_half_even (numeral n :: rat) = numeral n"
  using round_half_even_of_int [of "numeral n"] by simp

lemma round_half_even_zero [simp]: "round_half_even (0 :: rat) = 0"
  using round_half_even_of_int [of 0] by simp

lemmas float_defs =
  py_float_def float_blank_def is_digit_def ascii_isspace_def ascii_lower_def
  parse_decimal_def parse_exponent_def digits_val_def digit_val_def



lemma py_float_2_5: "py_float ''2.5'' = Inr (Finite (5 / 2))"
  using round_significand_exact [of 5 "- 1"]
  by (simp add: float_defs round_double_def)


lemma py_float_bad_line: "py_float ''bad_line'' = Inl ValueError"
  by (simp add: float_defs)

lemma round_significand_half_million: "round_significand 500000 = 500000"
  using round_significand_exact [of 500000 0] by simp



lemma timedelta_2_5: "timedelta_seconds (Finite (5 / 2)) = Inr 2500000"
proof -
  have "trunc (5 / 2) = 2" by (simp add: trunc_def)
  then show ?thesis
    by (simp add: timedelta_seconds_def round_significand_half_million Let_def)
qed




lemma datetime_add_t10h_2_5:
  "datetime_add t10h 2500000 = Inr (t10h\<lparr>second := 2, microsecond := 500000\<rparr>)"
  by (simp add: t10h_def calendar_defs)


subsection \<open>Auxiliary facts: the loop over the lines\<close>



lemma digit_char_digit: "digit_char d \<in> set ''0123456789''"
proof -
  have "nat (d mod 10) < 10" by simp
  then have "''0123456789'' ! nat (d mod 10) \<in> set ''0123456789''"
    by (intro nth_mem) simp
  then show ?thesis by (simp only: digit_char_def)
qed

















subsection \<open>Auxiliary facts: the file system under a conversion\<close>

lemma path_join_LR_neq: "path_join d ''LR.txt'' \<noteq> d"
  by (auto simp: path_join_def)

lemma convert_try_success:
  assumes "convert_try fs now p ob = (None, fs', lg)"
  shows "\<exists>c base_time text cl lg0 now_dt fs1.
           getctime fs p = Inr c \<and> fromtimestamp c = Inr base_time \<and> read_text fs p = Inr text
         \<and> convert_lines base_time p (readlines text) [] [] = (Inr cl, lg0)
         \<and> fromtimestamp now = Inr now_dt
         \<and> makedirs fs now (dated_output_dir ob now_dt) = Inr fs1
         \<and> append_text fs1 now (output_file_path ob now_dt)
              ((if \<not> isfile fs1 (output_file_path ob now_dt) then header else []) @ concat cl) = Inr fs'
         \<and> lg = lg0 @ [Info_Appended (length cl) (output_file_path ob now_dt)]"
  using assms
  by (auto simp: convert_try_def Let_def split: sum.splits prod.splits)


lemma makedirs_read_text:
  assumes "makedirs fs now d = Inr fs1" and "read_text fs q = Inr old"
  shows "read_text fs1 q = Inr old"
  using assms
  by (auto simp: makedirs_def read_text_def stat_def split: if_splits option.splits kind.splits)

lemma makedirs_denied: "makedirs fs now d = Inr fs1 \<Longrightarrow> denied fs1 = denied fs"
  by (auto simp: makedirs_def split: if_splits option.splits kind.splits)

lemma makedirs_isfile:
  assumes "makedirs fs now d = Inr fs1" and "q \<noteq> d"
  shows "isfile fs1 q = isfile fs q"
  using assms
  by (auto simp: makedirs_def isfile_def stat_def split: if_splits option.splits kind.splits)

lemma append_text_read_same:
  assumes "append_text fs now q t = Inr fs'"
  shows "read_text fs' q = Inr ((case read_text fs q of Inr old \<Rightarrow> old | Inl e \<Rightarrow> []) @ t)"
  using assms
  by (auto simp: append_text_def read_text_def stat_def split: if_splits option.splits kind.splits)

lemma append_text_isfile:
  assumes "append_text fs now q t = Inr fs'"
  shows "isfile fs q \<longleftrightarrow> (\<exists>old. read_text fs q = Inr old)" and "isfile fs' q"
  using assms
  by (auto simp: append_text_def read_text_def isfile_def stat_def split: if_splits option.splits kind.splits)

lemma append_text_read_other:
  assumes "append_text fs now q t = Inr fs'" and "r \<noteq> q"
  shows "read_text fs' r = read_text fs r"
  using assms
  by (auto simp: append_text_def read_text_def stat_def split: if_splits option.splits kind.splits)

lemma append_text_prefix:
  assumes "append_text fs now q t = Inr fs'" and "read_text fs r = Inr old"
  shows "\<exists>suffix. read_text fs' r = Inr (old @ suffix)"
proof (cases "r = q")
  case True
  then show ?thesis using append_text_read_same [OF assms(1)] assms(2) by simp
next
  case False
  then show ?thesis using append_text_read_other [OF assms(1)] assms(2) by simp
qed

lemma convert_try_prefix:
  assumes "convert_try fs now p ob = (r, fs', lg)" and "read_text fs q = Inr old"
  shows "\<exists>suffix. read_text fs' q = Inr (old @ suffix)"
  using assms
  by (auto simp: convert_try_def Let_def split: sum.splits prod.splits
      dest: makedirs_read_text append_text_prefix)

lemma isfile_read_text: "isfile fs q \<longleftrightarrow> (\<exists>old. read_text fs q = Inr old)"
  by (auto simp: isfile_def read_text_def split: sum.splits kind.splits)

lemma makedirs_read_text_other:
  assumes "makedirs fs now d = Inr fs1" and "q \<noteq> d"
  shows "read_text fs1 q = read_text fs q"
  using assms
  by (auto simp: makedirs_def read_text_def stat_def split: if_splits option.splits kind.splits)

lemma output_file_path_neq_dir: "output_file_path ob t \<noteq> dated_output_dir ob t"
  by (simp add: output_file_path_def path_join_LR_neq)

lemma convert_try_content:
  assumes "convert_try fs now p ob = (None, fs', lg)" and "fromtimestamp now = Inr now_dt"
  shows "\<exists>c base_time text cl lg0.
           getctime fs p = Inr c \<and> fromtimestamp c = Inr base_time \<and> read_text fs p = Inr text
         \<and> convert_lines base_time p (readlines text) [] [] = (Inr cl, lg0)
         \<and> lg = lg0 @ [Info_Appended (length cl) (output_file_path ob now_dt)]
         \<and> read_text fs' (output_file_path ob now_dt) =
               Inr ((case read_text fs (output_file_path ob now_dt) of
                       Inr old \<Rightarrow> old | Inl e \<Rightarrow> header) @ concat cl)"
proof -
  from convert_try_success [OF assms(1)] assms(2)
  obtain c base_time content cl lg0 fs1 where
    src: "getctime fs p = Inr c" "fromtimestamp c = Inr base_time" "read_text fs p = Inr content"
      "convert_lines base_time p (readlines content) [] [] = (Inr cl, lg0)"
    and mk: "makedirs fs now (dated_output_dir ob now_dt) = Inr fs1"
    and ap: "append_text fs1 now (output_file_path ob now_dt)
              ((if \<not> isfile fs1 (output_file_path ob now_dt) then header else []) @ concat cl) = Inr fs'"
    and lg: "lg = lg0 @ [Info_Appended (length cl) (output_file_path ob now_dt)]"
    by auto
  let ?out = "output_file_path ob now_dt"
  have r1: "read_text fs1 ?out = read_text fs ?out"
    using makedirs_read_text_other [OF mk output_file_path_neq_dir] .
  have "read_text fs' ?out =
      Inr ((case read_text fs ?out of Inr old \<Rightarrow> old | Inl e \<Rightarrow> [])
           @ (if \<not> isfile fs1 ?out then header else []) @ concat cl)"
    using append_text_read_same [OF ap] by (simp only: r1)
  moreover have "isfile fs1 ?out \<longleftrightarrow> (\<exists>old. read_text fs ?out = Inr old)"
    by (simp add: isfile_read_text r1)
  ultimately have "read_text fs' ?out =
      Inr ((case read_text fs ?out of Inr old \<Rightarrow> old | Inl e \<Rightarrow> header) @ concat cl)"
    by (cases "read_text fs ?out") auto
  with src lg show ?thesis by blast
qed

subsection \<open>Auxiliary facts: one source file converted twice\<close>

lemma fromtimestamp_10h05:
  "fromtimestamp 1704103500 =
     Inr \<lparr>year = 2024, month = 1, day = 1, hour = 10, minute = 5, second = 0, microsecond = 0\<rparr>"
  by (simp add: calendar_defs)

lemma fields_high: "split_on TAB (strip (''2.5'' @ [TAB] @ ''HIGH'' @ [LF])) = [''2.5'', ''HIGH'']"
  by (simp add: strip_def str_isspace_def)

lemma convert_line_high:
  "convert_line t10h (''2.5'' @ [TAB] @ ''HIGH'' @ [LF]) = Converted line_high"
  using fields_high
  by (simp add: convert_line_def py_float_2_5 timedelta_2_5 datetime_add_t10h_2_5 line_high_def)
     (simp add: t10h_def format_defs)

lemma convert_lines_high:
  "convert_lines t10h p (readlines (''2.5'' @ [TAB] @ ''HIGH'' @ [LF])) [] [] = (Inr [line_high], [])"
  using convert_line_high by (simp add: readlines_def)

lemma out_path_once:
  "output_file_path ''out''
     \<lparr>year = 2024, month = 1, day = 1, hour = 10, minute = 3, second = 20, microsecond = 0\<rparr>
   = ''out/2024/2024_01_01/LR.txt''"
  by (simp add: format_defs)

lemma out_path_twice:
  "output_file_path ''out''
     \<lparr>year = 2024, month = 1, day = 1, hour = 10, minute = 5, second = 0, microsecond = 0\<rparr>
   = ''out/2024/2024_01_01/LR.txt''"
  by (simp add: format_defs)

lemma convert_try_once:
  "convert_try fs_one 1704103400 ''a.dat'' ''out''
     = (None, fs_once, [Info_Appended 1 ''out/2024/2024_01_01/LR.txt''])"
  using convert_lines_high [of "''a.dat''"]
  by (simp add: convert_try_def getctime_def stat_def read_text_def fs_one_def fs_once_def
      fromtimestamp_10h fromtimestamp_10h03 t10h_def makedirs_def isfile_def append_text_def
      format_defs Let_def)

lemma convert_try_twice:
  "convert_try fs_once 1704103500 ''a.dat'' ''out''
     = (None, fs_twice, [Info_Appended 1 ''out/2024/2024_01_01/LR.txt''])"
  using convert_lines_high [of "''a.dat''"]
  by (simp add: convert_try_def getctime_def stat_def read_text_def fs_one_def fs_once_def fs_twice_def
      fromtimestamp_10h fromtimestamp_10h05 t10h_def makedirs_def isfile_def append_text_def
      format_defs Let_def line_high_def)

subsection \<open>Auxiliary facts: when a conversion can write\<close>




lemma zero_pad_2: "zero_pad 2 k = [digit_char (k div 10), digit_char k]"
  by (simp add: zero_pad_def upt_rec)

lemma digit_char_not_sep [simp]: "digit_char d \<noteq> CHR ''/''"
  using digit_char_digit [of d] by auto


subsection \<open>Auxiliary facts: a conversion leaves the source files alone\<close>

lemma endswith_dat_last: "endswith p ''.dat'' \<Longrightarrow> p \<noteq> [] \<and> last p = CHR ''t''"
proof -
  assume a: "endswith p ''.dat''"
  have d: "drop (length p - length ''.dat'') p = ''.dat''" and l: "length ''.dat'' \<le> length p"
    using a unfolding endswith_def by blast+
  have ne: "p \<noteq> []" using l by auto
  have "length p - length ''.dat'' < length p" using l by simp
  then have "last (drop (length p - length ''.dat'') p) = last p" by (rule last_drop)
  then have "last p = last ''.dat''" by (simp only: d)
  then show ?thesis using ne by simp
qed

lemma last_path_join: "b \<noteq> [] \<Longrightarrow> last (path_join a b) = last b"
  by (simp add: path_join_def)

lemma dated_output_dir_not_dat: "\<not> endswith (dated_output_dir ob t) ''.dat''"
proof
  assume "endswith (dated_output_dir ob t) ''.dat''"
  then have "last (dated_output_dir ob t) = CHR ''t''"
    using endswith_dat_last by blast
  moreover have "last (dated_output_dir ob t) = digit_char (day t)"
    by (simp add: dated_output_dir_def last_path_join strftime_date_def zero_pad_2)
  ultimately show False using digit_char_digit [of "day t"] by auto
qed

lemma endswith_LR: "\<not> endswith (a @ ''LR.txt'') ''.dat''"
  by (simp add: endswith_def)

lemma output_file_path_not_dat: "\<not> endswith (output_file_path ob t) ''.dat''"
proof -
  have "path_join (dated_output_dir ob t) ''LR.txt'' = dated_output_dir ob t @ ''LR.txt''
      \<or> path_join (dated_output_dir ob t) ''LR.txt'' = (dated_output_dir ob t @ ''/'') @ ''LR.txt''"
    by (simp add: path_join_def)
  then show ?thesis
    unfolding output_file_path_def using endswith_LR by metis
qed

lemma makedirs_stat_other:
  assumes "makedirs fs now d = Inr fs1" and "q \<noteq> d"
  shows "stat fs1 q = stat fs q"
  using assms by (auto simp: makedirs_def stat_def split: if_splits option.splits kind.splits)

lemma append_text_stat_other:
  assumes "append_text fs now r t = Inr fs'" and "q \<noteq> r"
  shows "stat fs' q = stat fs q"
  using assms by (auto simp: append_text_def stat_def split: if_splits option.splits kind.splits)

lemma convert_try_fs:
  assumes "convert_try fs now p ob = (r, fs', lg)"
  shows "fs' = fs \<or> (\<exists>t fs1. makedirs fs now (dated_output_dir ob t) = Inr fs1
            \<and> (fs' = fs1 \<or> (\<exists>added. append_text fs1 now (output_file_path ob t) added = Inr fs')))"
  using assms
  by (auto simp: convert_try_def Let_def split: sum.splits prod.splits)

lemma convert_try_stat_dat:
  assumes "convert_try fs now p ob = (r, fs', lg)" and "endswith q ''.dat''"
  shows "stat fs' q = stat fs q"
proof -
  have neq: "\<And>t. q \<noteq> dated_output_dir ob t" "\<And>t. q \<noteq> output_file_path ob t"
    using assms(2) dated_output_dir_not_dat output_file_path_not_dat by auto
  from convert_try_fs [OF assms(1)] show ?thesis
  proof (elim disjE exE conjE)
    assume "fs' = fs"
    then show ?thesis by simp
  next
    fix t fs1
    assume "makedirs fs now (dated_output_dir ob t) = Inr fs1" "fs' = fs1"
    then show ?thesis using makedirs_stat_other neq(1) by blast
  next
    fix t fs1 added
    assume "makedirs fs now (dated_output_dir ob t) = Inr fs1"
      "append_text fs1 now (output_file_path ob t) added = Inr fs'"
    then show ?thesis
      using makedirs_stat_other [of fs now "dated_output_dir ob t" fs1 q]
        append_text_stat_other [of fs1 now "output_file_path ob t" added fs' q] neq
      by simp
  qed
qed

lemma process_file_getmtime_dat:
  assumes "endswith q ''.dat''"
  shows "getmtime (fsys (process_file w now p)) q = getmtime (fsys w) q"
proof -
  obtain r fs' lg where c: "convert_try (fsys w) now p (output_dir (hdl w)) = (r, fs', lg)"
    by (cases "convert_try (fsys w) now p (output_dir (hdl w))") auto
  have "stat fs' q = stat (fsys w) q" using convert_try_stat_dat [OF c assms] .
  then show ?thesis
    using c
    by (cases r) (auto simp: process_file_def convert_lr_to_epic_def getmtime_def Let_def split: sum.splits)
qed

lemma process_files_getmtime_dat:
  assumes "endswith q ''.dat''"
  shows "getmtime (fsys (process_files w clock ps)) q = getmtime (fsys w) q"
  by (induction ps arbitrary: w) (simp_all add: process_file_getmtime_dat [OF assms])

subsection \<open>Auxiliary facts: what the dispatcher does to one path\<close>

lemma convert_lines_log:
  assumes "convert_lines base_time fp ls acc lg = (r, lg')" and "Info_Processing p \<in> set lg'"
  shows "Info_Processing p \<in> set lg"
  using assms
proof (induction ls arbitrary: acc lg)
  case Nil
  then show ?case by simp
next
  case (Cons l ls)
  show ?case
  proof (cases "convert_line base_time l")
    case Skipped
    then show ?thesis using Cons.prems Cons.IH [of acc lg] by simp
  next
    case Invalid
    then show ?thesis
      using Cons.prems Cons.IH [of acc "lg @ [Warning_Skipping (strip l) fp]"] by simp
  next
    case (Converted s)
    then show ?thesis using Cons.prems Cons.IH [of "acc @ [s]" lg] by simp
  next
    case (Raised e)
    then show ?thesis using Cons.prems by simp
  qed
qed

lemma convert_try_log:
  assumes "convert_try fs now q ob = (r, fs', lg)"
  shows "Info_Processing p \<notin> set lg"
  using assms convert_lines_log [of _ q _ "[]" "[]" _ _ p]
  by (auto simp: convert_try_def Let_def split: sum.splits prod.splits)

lemma convert_lr_to_epic_log:
  assumes "convert_lr_to_epic fs now q ob = (fs', lg)"
  shows "count_list lg (Info_Processing p) = 0"
proof -
  obtain r fs1 lg1 where c: "convert_try fs now q ob = (r, fs1, lg1)"
    by (cases "convert_try fs now q ob") auto
  have "Info_Processing p \<notin> set lg1" using convert_try_log [OF c] .
  then have "Info_Processing p \<notin> set lg"
    using assms c by (cases r) (auto simp: convert_lr_to_epic_def)
  then show ?thesis by (simp add: count_list_0_iff)
qed

lemma view_process_file_other:
  assumes "q \<noteq> p"
  shows "view p (process_file w now q) = view p w"
proof -
  obtain fs' lg where c: "convert_lr_to_epic (fsys w) now q (output_dir (hdl w)) = (fs', lg)"
    by (cases "convert_lr_to_epic (fsys w) now q (output_dir (hdl w))") auto
  show ?thesis
    using assms c convert_lr_to_epic_log [OF c, of p]
    by (auto simp: view_def last_activity_def marker_def conversions_of_def dispatches_of_def
        process_file_def Let_def split: sum.splits)
qed

lemma view_process_file_self:
  "view p (process_file w now p) =
     (case getmtime (fsys w) p of
        Inl e \<Rightarrow> (if e = FileNotFoundError then None else last_activity w p,
                  marker w p, conversions_of p w, Suc (dispatches_of p w))
      | Inr m \<Rightarrow> (None, Some m, conversions_of p w @ [m], Suc (dispatches_of p w)))"
proof -
  obtain fs' lg where c: "convert_lr_to_epic (fsys w) now p (output_dir (hdl w)) = (fs', lg)"
    by (cases "convert_lr_to_epic (fsys w) now p (output_dir (hdl w))") auto
  show ?thesis
    using c convert_lr_to_epic_log [OF c, of p]
    by (auto simp: view_def last_activity_def marker_def conversions_of_def dispatches_of_def
        process_file_def Let_def delete_conv' split: sum.splits)
qed

lemma view_process_files_other:
  assumes "p \<notin> set ps"
  shows "view p (process_files w clock ps) = view p w"
  using assms
  by (induction ps arbitrary: w) (auto simp: view_process_file_other)

lemma view_process_files_self:
  assumes "distinct ps" and "p \<in> set ps" and "endswith p ''.dat''"
  shows "view p (process_files w clock ps) =
     (case getmtime (fsys w) p of
        Inl e \<Rightarrow> (if e = FileNotFoundError then None else last_activity w p,
                  marker w p, conversions_of p w, Suc (dispatches_of p w))
      | Inr m \<Rightarrow> (None, Some m, conversions_of p w @ [m], Suc (dispatches_of p w)))"
  using assms(1,2)
proof (induction ps arbitrary: w)
  case Nil
  then show ?case by simp
next
  case (Cons q ps)
  show ?case
  proof (cases "q = p")
    case True
    with Cons.prems have "p \<notin> set ps" by simp
    then show ?thesis
      using True by (simp add: view_process_files_other view_process_file_self)
  next
    case False
    with Cons.prems have "distinct ps" "p \<in> set ps" by simp_all
    note ih = Cons.IH [OF this, of "process_file w (clock q) q"]
    have v: "view p (process_file w (clock q) q) = view p w"
      using view_process_file_other [OF False] .
    then have c: "last_activity (process_file w (clock q) q) p = last_activity w p"
        "marker (process_file w (clock q) q) p = marker w p"
        "conversions_of p (process_file w (clock q) q) = conversions_of p w"
        "dispatches_of p (process_file w (clock q) q) = dispatches_of p w"
      by (simp_all add: view_def)
    have g: "getmtime (fsys (process_file w (clock q) q)) p = getmtime (fsys w) p"
      using process_file_getmtime_dat [OF assms(3)] .
    show ?thesis
      using ih by (simp only: process_files.simps g c)
  qed
qed

subsection \<open>Auxiliary facts: polls and reachable handlers\<close>


lemma distinct_files_to_process:
  "well_formed h \<Longrightarrow> distinct (files_to_process h ct)"
  by (simp add: well_formed_def files_to_process_def distinct_map_filter)

lemma files_to_process_dat:
  "well_formed h \<Longrightarrow> p \<in> set (files_to_process h ct) \<Longrightarrow> endswith p ''.dat''"
  by (auto simp: well_formed_def files_to_process_def list_all_iff)

lemma files_to_process_iff:
  assumes "well_formed h"
  shows "p \<in> set (files_to_process h ct) \<longleftrightarrow>
     (\<exists>t. map_of (file_timestamps h) p = Some t \<and> inactivity_period h < ct - t)"
proof -
  have d: "distinct (map fst (file_timestamps h))" using assms by (simp add: well_formed_def)
  show ?thesis
  proof
    assume "p \<in> set (files_to_process h ct)"
    then obtain t where "(p, t) \<in> set (file_timestamps h)" "inactivity_period h < ct - t"
      by (auto simp: files_to_process_def)
    then show "\<exists>t. map_of (file_timestamps h) p = Some t \<and> inactivity_period h < ct - t"
      using d by auto
  next
    assume "\<exists>t. map_of (file_timestamps h) p = Some t \<and> inactivity_period h < ct - t"
    then obtain t where "map_of (file_timestamps h) p = Some t" "inactivity_period h < ct - t"
      by blast
    then have "(p, t) \<in> set (file_timestamps h)" "inactivity_period h < ct - t"
      by (auto dest: map_of_SomeD)
    then show "p \<in> set (files_to_process h ct)"
      by (force simp: files_to_process_def)
  qed
qed

lemma view_checks:
  "view p (w\<lparr>logged := logged w @ map (\<lambda>(file_path, last_modified). Info_Checking file_path last_modified) al\<rparr>)
     = view p w"
proof -
  have "Info_Processing p \<notin> set (map (\<lambda>(file_path, last_modified). Info_Checking file_path last_modified) al)"
    by auto
  then have "count_list (map (\<lambda>(file_path, last_modified). Info_Checking file_path last_modified) al)
      (Info_Processing p) = 0"
    by (rule count_notin)
  then show ?thesis
    by (simp add: view_def last_activity_def marker_def conversions_of_def dispatches_of_def)
qed

lemma view_check_and_process_files:
  assumes "well_formed (hdl w)"
  shows "view p (check_and_process_files w ct clock) =
     (if p \<in> set (files_to_process (hdl w) ct)
      then (case getmtime (fsys w) p of
              Inl e \<Rightarrow> (if e = FileNotFoundError then None else last_activity w p,
                        marker w p, conversions_of p w, Suc (dispatches_of p w))
            | Inr m \<Rightarrow> (None, Some m, conversions_of p w @ [m], Suc (dispatches_of p w)))
      else view p w)"
proof -
  let ?w = "w\<lparr>logged := logged w @ map (\<lambda>(file_path, last_modified).
      Info_Checking file_path last_modified) (file_timestamps (hdl w))\<rparr>"
  have v: "view p ?w = view p w" by (rule view_checks)
  then have c: "last_activity ?w p = last_activity w p" "marker ?w p = marker w p"
      "conversions_of p ?w = conversions_of p w" "dispatches_of p ?w = dispatches_of p w"
    by (simp_all add: view_def)
  have f: "fsys ?w = fsys w" by simp
  have e: "check_and_process_files w ct clock = process_files ?w clock (files_to_process (hdl w) ct)"
    by (simp add: check_and_process_files_def Let_def)
  show ?thesis
  proof (cases "p \<in> set (files_to_process (hdl w) ct)")
    case True
    have "view p (process_files ?w clock (files_to_process (hdl w) ct)) =
      (case getmtime (fsys ?w) p of
        Inl e \<Rightarrow> (if e = FileNotFoundError then None else last_activity ?w p,
                  marker ?w p, conversions_of p ?w, Suc (dispatches_of p ?w))
      | Inr m \<Rightarrow> (None, Some m, conversions_of p ?w @ [m], Suc (dispatches_of p ?w)))"
      using view_process_files_self [OF distinct_files_to_process [OF assms] True
          files_to_process_dat [OF assms True]] .
    then show ?thesis using True by (simp only: e c f if_True)
  next
    case False
    then show ?thesis
      using view_process_files_other [OF False, of ?w clock] by (simp only: e v if_False)
  qed
qed

lemma well_formed_init: "well_formed (init_handler od ip)"
  by (simp add: well_formed_def init_handler_def)

lemma well_formed_update:
  assumes "well_formed h" and "endswith p ''.dat''"
  shows "well_formed (h\<lparr>file_timestamps := AList.update p now (file_timestamps h)\<rparr>)"
  using assms by (auto simp: well_formed_def distinct_update update_keys list_all_iff)

lemma well_formed_delete:
  assumes "well_formed h"
  shows "well_formed (h\<lparr>file_timestamps := AList.delete p (file_timestamps h)\<rparr>)"
  using assms by (auto simp: well_formed_def delete_keys distinct_removeAll list_all_iff)

lemma well_formed_markers [simp]:
  "well_formed (h\<lparr>processed_mtimes := pm\<rparr>) = well_formed h"
  by (simp add: well_formed_def)

lemma well_formed_on_modified:
  assumes "well_formed h" and "on_modified h fs now ev = Inr (h', lg)"
  shows "well_formed h'"
  using assms well_formed_update [of h "src_path ev" now]
  by (auto simp: on_modified_def split: if_splits sum.splits)

lemma well_formed_on_created:
  assumes "well_formed h" and "on_created h fs now ev = Inr (h', lg)"
  shows "well_formed h'"
  using assms well_formed_update [of h "src_path ev" now]
  by (auto simp: on_created_def split: if_splits sum.splits)

lemma well_formed_process_file:
  assumes "well_formed (hdl w)"
  shows "well_formed (hdl (process_file w now p))"
proof -
  have "well_formed ((hdl w)\<lparr>file_timestamps := AList.delete p (file_timestamps (hdl w))\<rparr>)"
    using well_formed_delete [OF assms] .
  then have "\<And>pm. well_formed ((hdl w)\<lparr>processed_mtimes := pm,
      file_timestamps := AList.delete p (file_timestamps (hdl w))\<rparr>)"
    by (simp add: well_formed_def)
  then show ?thesis
    using assms well_formed_delete [OF assms, of p]
    by (auto simp: process_file_def Let_def split: sum.splits prod.splits)
qed

lemma well_formed_process_files:
  assumes "well_formed (hdl w)"
  shows "well_formed (hdl (process_files w clock ps))"
  using assms by (induction ps arbitrary: w) (auto simp: well_formed_process_file)

lemma well_formed_apply_step:
  assumes "well_formed (hdl w)"
  shows "well_formed (hdl (apply_step w s))"
proof (cases s)
  case (Created ev now)
  then show ?thesis
    using assms well_formed_on_created [OF assms, of "fsys w" now ev]
    by (cases "on_created (hdl w) (fsys w) now ev") auto
next
  case (Modified ev now)
  then show ?thesis
    using assms well_formed_on_modified [OF assms, of "fsys w" now ev]
    by (cases "on_modified (hdl w) (fsys w) now ev") auto
next
  case (Poll ct clock)
  then show ?thesis
    using well_formed_process_files [of _ clock "files_to_process (hdl w) ct"] assms
    by (simp add: check_and_process_files_def Let_def)
next
  case (Outside fs)
  then show ?thesis using assms by simp
qed



subsection \<open>Auxiliary facts: events and quiet runs\<close>

lemma callback_result:
  assumes "r = on_created h fs now ev \<or> r = on_modified h fs now ev" and "r = Inr (h', lg)"
  shows "processed_mtimes h' = processed_mtimes h
     \<and> Info_Processing p \<notin> set lg
     \<and> (file_timestamps h' = file_timestamps h
        \<or> (should_track h fs (src_path ev) = Inr True
           \<and> file_timestamps h' = AList.update (src_path ev) now (file_timestamps h)))"
  using assms
  by (auto simp: on_created_def on_modified_def split: if_splits sum.splits)

lemma should_track_true:
  assumes "should_track h fs p = Inr True"
  shows "\<exists>m. getmtime fs p = Inr m \<and> (case processed_mtimes h p of None \<Rightarrow> 0 | Some l \<Rightarrow> l) < m"
  using assms by (auto simp: should_track_def Let_def split: sum.splits if_splits)

lemma deliver_view:
  assumes "r = on_created (hdl w) (fsys w) now ev \<or> r = on_modified (hdl w) (fsys w) now ev"
  shows "fsys (deliver w r) = fsys w
     \<and> marker (deliver w r) p = marker w p
     \<and> conversions_of p (deliver w r) = conversions_of p w
     \<and> dispatches_of p (deliver w r) = dispatches_of p w
     \<and> (last_activity (deliver w r) p = last_activity w p
        \<or> (last_activity (deliver w r) p = Some now
           \<and> (\<exists>m. getmtime (fsys w) p = Inr m \<and> marker_or_zero w p < m)))"
proof (cases r)
  case (Inl e)
  then show ?thesis by simp
next
  case (Inr hl)
  obtain h' lg where hl: "hl = (h', lg)" by (cases hl)
  note cr = callback_result [OF assms, of h' lg p] Inr hl
  have cnt: "count_list lg (Info_Processing p) = 0" using cr by (simp add: count_list_0_iff)
  have base: "fsys (deliver w r) = fsys w" "marker (deliver w r) p = marker w p"
      "conversions_of p (deliver w r) = conversions_of p w"
      "dispatches_of p (deliver w r) = dispatches_of p w"
    using cr cnt by (simp_all add: marker_def conversions_of_def dispatches_of_def)
  have la: "last_activity (deliver w r) p = last_activity w p
        \<or> (last_activity (deliver w r) p = Some now
           \<and> (\<exists>m. getmtime (fsys w) p = Inr m \<and> marker_or_zero w p < m))"
  proof (cases "file_timestamps h' = file_timestamps (hdl w)")
    case True
    then show ?thesis using Inr hl by (simp add: last_activity_def)
  next
    case False
    then have st: "should_track (hdl w) (fsys w) (src_path ev) = Inr True"
      and up: "file_timestamps h' = AList.update (src_path ev) now (file_timestamps (hdl w))"
      using cr by auto
    show ?thesis
    proof (cases "src_path ev = p")
      case True
      then show ?thesis
        using should_track_true [OF st] up Inr hl
        by (auto simp: last_activity_def update_conv' marker_or_zero_def marker_def)
    next
      case False
      then show ?thesis using up Inr hl by (simp add: last_activity_def update_conv')
    qed
  qed
  show ?thesis using base la by simp
qed


subsection \<open>Auxiliary facts: a watched file that keeps being written\<close>




lemma run_append: "run w (xs @ ys) = run (run w xs) ys"
  by (simp add: run_def)

subsection \<open>Auxiliary facts: the conversions of one path along a run\<close>

lemma le_last_strict: "sorted_wrt (<) xs \<Longrightarrow> x \<in> set xs \<Longrightarrow> x \<le> (last xs :: real)"
proof (induction xs)
  case Nil
  then show ?case by simp
next
  case (Cons a xs)
  show ?case
  proof (cases "xs = []")
    case True
    then show ?thesis using Cons.prems by simp
  next
    case False
    then have l: "last xs \<in> set xs" by simp
    show ?thesis
    proof (cases "x = a")
      case True
      have "a < last xs" using Cons.prems(1) l by simp
      then show ?thesis using True \<open>xs \<noteq> []\<close> by simp
    next
      case False
      then show ?thesis using Cons \<open>xs \<noteq> []\<close> by simp
    qed
  qed
qed

lemma mtimes_seen_Cons:
  "mtimes_seen p (w # ws) = (case getmtime (fsys w) p of Inl e \<Rightarrow> [] | Inr m \<Rightarrow> [m]) @ mtimes_seen p ws"
  by (simp add: mtimes_seen_def)

lemma step_cases:
  assumes "well_formed (hdl w)"
  shows "(marker (apply_step w s) p = marker w p
          \<and> conversions_of p (apply_step w s) = conversions_of p w
          \<and> (last_activity (apply_step w s) p \<noteq> None \<longrightarrow>
                last_activity (apply_step w s) p = last_activity w p))
       \<or> (marker (apply_step w s) p = marker w p
          \<and> conversions_of p (apply_step w s) = conversions_of p w
          \<and> (\<exists>m. getmtime (fsys w) p = Inr m \<and> marker_or_zero w p < m))
       \<or> (last_activity w p \<noteq> None
          \<and> (\<exists>m. getmtime (fsys w) p = Inr m
                \<and> marker (apply_step w s) p = Some m
                \<and> conversions_of p (apply_step w s) = conversions_of p w @ [m]
                \<and> last_activity (apply_step w s) p = None))"
proof (cases s)
  case (Created ev now)
  then show ?thesis
    using deliver_view [of "on_created (hdl w) (fsys w) now ev" w now ev p] by auto
next
  case (Modified ev now)
  then show ?thesis
    using deliver_view [of "on_modified (hdl w) (fsys w) now ev" w now ev p] by auto
next
  case (Poll ct clock)
  note v = view_check_and_process_files [OF assms, of p ct clock]
  show ?thesis
  proof (cases "p \<in> set (files_to_process (hdl w) ct)")
    case False
    then show ?thesis using v Poll by (simp add: view_def)
  next
    case True
    then have tr: "last_activity w p \<noteq> None"
      using files_to_process_iff [OF assms, of p ct] by (auto simp: last_activity_def)
    show ?thesis
    proof (cases "getmtime (fsys w) p")
      case (Inl e)
      then show ?thesis using v True Poll by (simp add: view_def)
    next
      case (Inr m)
      then show ?thesis using v True Poll tr by (simp add: view_def)
    qed
  qed
next
  case (Outside fs)
  then show ?thesis
    by (simp add: marker_def conversions_of_def last_activity_def)
qed

lemma run_conversions:
  assumes "well_formed (hdl w)"
      and "sorted_wrt (<) (conversions_of p w)"
      and "marker w p = (if conversions_of p w = [] then None else Some (last (conversions_of p w)))"
      and "last_activity w p \<noteq> None \<longrightarrow>
             (\<exists>b. marker_or_zero w p < b \<and> (\<forall>m \<in> set (mtimes_seen p (worlds w steps)). b \<le> m))"
      and "sorted (mtimes_seen p (worlds w steps))"
  shows "sorted_wrt (<) (conversions_of p (run w steps))
       \<and> marker (run w steps) p =
           (if conversions_of p (run w steps) = [] then None
            else Some (last (conversions_of p (run w steps))))"
  using assms
proof (induction steps arbitrary: w)
  case Nil
  then show ?case by (simp add: run_def)
next
  case (Cons s steps)
  let ?w = "apply_step w s"
  let ?here = "case getmtime (fsys w) p of Inl e \<Rightarrow> [] | Inr m \<Rightarrow> [m]"
  have seen: "mtimes_seen p (worlds w (s # steps)) = ?here @ mtimes_seen p (worlds ?w steps)"
    by (simp add: mtimes_seen_Cons)
  have wf: "well_formed (hdl ?w)" using Cons.prems(1) by (rule well_formed_apply_step)
  have so: "sorted (mtimes_seen p (worlds ?w steps))"
    using Cons.prems(5) unfolding seen by (simp add: sorted_append)
  have sub: "set (mtimes_seen p (worlds ?w steps)) \<subseteq> set (mtimes_seen p (worlds w (s # steps)))"
    unfolding seen by auto
  have run: "run w (s # steps) = run ?w steps" by (simp add: run_def)
  have "sorted_wrt (<) (conversions_of p ?w)
      \<and> marker ?w p = (if conversions_of p ?w = [] then None else Some (last (conversions_of p ?w)))
      \<and> (last_activity ?w p \<noteq> None \<longrightarrow>
             (\<exists>b. marker_or_zero ?w p < b \<and> (\<forall>m \<in> set (mtimes_seen p (worlds ?w steps)). b \<le> m)))"
    using step_cases [OF Cons.prems(1), of s p]
  proof (elim disjE conjE exE)
    assume same: "marker ?w p = marker w p" "conversions_of p ?w = conversions_of p w"
      "last_activity ?w p \<noteq> None \<longrightarrow> last_activity ?w p = last_activity w p"
    have "marker_or_zero ?w p = marker_or_zero w p"
      using same(1) by (simp add: marker_or_zero_def)
    then show ?thesis
      using same Cons.prems(2,3,4) sub by (auto simp: subset_iff)
  next
    fix m
    assume event: "marker ?w p = marker w p" "conversions_of p ?w = conversions_of p w"
      "getmtime (fsys w) p = Inr m" "marker_or_zero w p < m"
    have mz: "marker_or_zero ?w p = marker_or_zero w p"
      using event(1) by (simp add: marker_or_zero_def)
    have "sorted (m # mtimes_seen p (worlds ?w steps))"
      using Cons.prems(5) unfolding seen by (simp add: event(3))
    then have "\<forall>m' \<in> set (mtimes_seen p (worlds ?w steps)). m \<le> m'" by simp
    then have "\<exists>b. marker_or_zero ?w p < b \<and> (\<forall>m' \<in> set (mtimes_seen p (worlds ?w steps)). b \<le> m')"
      using event(4) mz by auto
    then show ?thesis using event(1,2) Cons.prems(2,3) by simp
  next
    fix m
    assume conv: "last_activity w p \<noteq> None" "getmtime (fsys w) p = Inr m"
      "marker ?w p = Some m" "conversions_of p ?w = conversions_of p w @ [m]"
      "last_activity ?w p = None"
    from Cons.prems(4) conv(1) obtain b where
      b: "marker_or_zero w p < b" "\<forall>m' \<in> set (mtimes_seen p (worlds w (s # steps))). b \<le> m'"
      by blast
    have "m \<in> set (mtimes_seen p (worlds w (s # steps)))"
      unfolding seen by (simp add: conv(2))
    then have lt: "marker_or_zero w p < m" using b by force
    have below: "\<forall>c \<in> set (conversions_of p w). c < m"
    proof
      fix c assume c: "c \<in> set (conversions_of p w)"
      then have ne: "conversions_of p w \<noteq> []" by auto
      then have "marker_or_zero w p = last (conversions_of p w)"
        using Cons.prems(3) by (simp add: marker_or_zero_def)
      moreover have "c \<le> last (conversions_of p w)"
        using le_last_strict [OF Cons.prems(2) c] .
      ultimately show "c < m" using lt by simp
    qed
    have "sorted_wrt (<) (conversions_of p w @ [m])"
      using Cons.prems(2) below by (simp add: sorted_wrt_append)
    then show ?thesis using conv by simp
  qed
  then show ?case
    using Cons.IH [OF wf _ _ _ so] unfolding run by blast
qed

subsection \<open>Auxiliary facts: a run with two conversions\<close>

lemma convert_try_touched:
  "convert_try fs_touched 1704103500 ''a.dat'' ''out''
     = (None, fs_touched_twice, [Info_Appended 1 ''out/2024/2024_01_01/LR.txt''])"
  using convert_lines_high [of "''a.dat''"]
  by (simp add: convert_try_def getctime_def stat_def read_text_def fs_one_def fs_once_def
      fs_touched_def fs_touched_twice_def
      fromtimestamp_10h fromtimestamp_10h05 t10h_def makedirs_def isfile_def append_text_def
      format_defs Let_def line_high_def)

lemma getmtime_a:
  "getmtime fs_one ''a.dat'' = Inr 1704103300"
  "getmtime fs_once ''a.dat'' = Inr 1704103300"
  "getmtime fs_touched ''a.dat'' = Inr 1704103450"
  "getmtime fs_touched_twice ''a.dat'' = Inr 1704103450"
  by (simp_all add: getmtime_def stat_def fs_one_def fs_once_def fs_touched_def fs_touched_twice_def)

lemmas watcher_defs =
  start_def init_handler_def ev_a_def on_created_def on_modified_def endswith_def
  should_track_def check_and_process_files_def files_to_process_def process_file_def
  convert_lr_to_epic_def Let_def

lemma run_twice:
  "run (start ''out'' 20 fs_one) steps_twice =
     \<lparr>hdl = (init_handler ''out'' 20)\<lparr>processed_mtimes := [''a.dat'' \<mapsto> 1704103450]\<rparr>,
      fsys = fs_touched_twice,
      logged = [Info_Detected ''a.dat'',
                Info_Checking ''a.dat'' 100, Info_Processing ''a.dat'',
                Info_Appended 1 ''out/2024/2024_01_01/LR.txt'',
                Info_Checking ''a.dat'' 310, Info_Processing ''a.dat'',
                Info_Appended 1 ''out/2024/2024_01_01/LR.txt''],
      converted = [(''a.dat'', 1704103300), (''a.dat'', 1704103450)]\<rparr>"
  by (simp add: run_def steps_twice_def watcher_defs getmtime_a convert_try_once convert_try_touched)

lemma mtimes_twice:
  "mtimes_seen ''a.dat'' (worlds (start ''out'' 20 fs_one) steps_twice) =
     [1704103300, 1704103300, 1704103300, 1704103300, 1704103300,
      1704103450, 1704103450, 1704103450]"
  by (simp add: mtimes_seen_def steps_twice_def watcher_defs getmtime_a convert_try_once
      convert_try_touched)

subsection \<open>The event filter\<close>

text \<open>
  C3, as the code has it.  \<^const>\<open>should_track\<close> only returns a value.  It returns
  false when the file does not exist; any other failure of the stat is raised to the
  caller; otherwise it returns whether the modification time is strictly greater than the
  stored marker, or than zero when there is none.  So once a marker \<open>T\<close> is stored and
  the file still has modification time \<open>T\<close>, it returns false and neither callback
  changes the handler.
\<close>

theorem should_track_contract:
  "(getmtime fs p = Inl FileNotFoundError \<longrightarrow> should_track h fs p = Inr False)
   \<and> (\<forall>e. getmtime fs p = Inl e \<and> e \<noteq> FileNotFoundError \<longrightarrow> should_track h fs p = Inl e)
   \<and> (\<forall>m. getmtime fs p = Inr m \<longrightarrow>
          should_track h fs p = Inr ((case processed_mtimes h p of None \<Rightarrow> 0 | Some l \<Rightarrow> l) < m))
   \<and> (\<forall>T. getmtime fs p = Inr T \<and> processed_mtimes h p = Some T \<longrightarrow>
          should_track h fs p = Inr False
          \<and> on_modified h fs now \<lparr>is_directory = False, src_path = p\<rparr> = Inr (h, [])
          \<and> on_created h fs now \<lparr>is_directory = False, src_path = p\<rparr> = Inr (h, []))"
  by (auto simp: should_track_def on_modified_def on_created_def)

theorem should_track_contract_witness:
  "getmtime fs_seen ''a.dat'' = Inr 50 \<and> processed_mtimes h_seen ''a.dat'' = Some 50
   \<and> should_track h_seen fs_seen ''a.dat'' = Inr False
   \<and> on_modified h_seen fs_seen 99 \<lparr>is_directory = False, src_path = ''a.dat''\<rparr> = Inr (h_seen, [])
   \<and> getmtime fs_seen ''b.dat'' = Inl FileNotFoundError
   \<and> should_track h_seen fs_seen ''b.dat'' = Inr False
   \<and> getmtime fs_locked ''a.dat'' = Inl PermissionError
   \<and> should_track h_seen fs_locked ''a.dat'' = Inl PermissionError"
proof -
  have a: "getmtime fs_seen ''a.dat'' = Inr 50"
    by (simp add: getmtime_def stat_def fs_seen_def)
  have b: "processed_mtimes h_seen ''a.dat'' = Some 50"
    by (simp add: h_seen_def init_handler_def)
  have c: "getmtime fs_seen ''b.dat'' = Inl FileNotFoundError"
    by (simp add: getmtime_def stat_def fs_seen_def)
  have d: "getmtime fs_locked ''a.dat'' = Inl PermissionError"
    by (simp add: getmtime_def stat_def fs_locked_def)
  show ?thesis
    using a b c d
      should_track_contract [of fs_seen "''a.dat''" h_seen 99]
      should_track_contract [of fs_seen "''b.dat''" h_seen 99]
      should_track_contract [of fs_locked "''a.dat''" h_seen 99]
    by simp
qed

text \<open>
  The claim as written has \<^const>\<open>should_track\<close> return false whenever the file cannot
  be stat-ed.  For a path the process may not stat, it raises instead.
\<close>

theorem should_track_locked_counterexample:
  "getmtime fs_locked ''a.dat'' = Inl PermissionError
   \<and> should_track (init_handler ''out'' 30) fs_locked ''a.dat'' = Inl PermissionError
   \<and> should_track (init_handler ''out'' 30) fs_locked ''a.dat'' \<noteq> Inr False"
  by (simp add: should_track_def getmtime_def stat_def fs_locked_def)

subsection \<open>The dispatcher\<close>

text \<open>
  C5.  When the file of a ready path is gone at the moment its modification time is
  read, the dispatcher removes the path from \<open>file_timestamps\<close> and keeps the other
  entries, leaves \<open>processed_mtimes\<close>, the file system and the list of conversions as
  they were, logs a warning and no error, and goes on: every remaining ready path is
  still dispatched.
\<close>

theorem missing_file_dropped:
  assumes "getmtime (fsys w) p = Inl FileNotFoundError"
  shows "file_timestamps (hdl (process_file w now p)) = AList.delete p (file_timestamps (hdl w))
     \<and> map_of (file_timestamps (hdl (process_file w now p))) p = None
     \<and> processed_mtimes (hdl (process_file w now p)) = processed_mtimes (hdl w)
     \<and> fsys (process_file w now p) = fsys w
     \<and> converted (process_file w now p) = converted w
     \<and> logged (process_file w now p) = logged w @ [Info_Processing p, Warning_Disappeared p]
     \<and> (\<forall>q \<in> set rest. Info_Processing q \<in> set (logged (process_files w clock (p # rest))))"
  using assms processing_logged [of _ rest "process_file w (clock p) p" clock]
  by (simp add: process_file_def Let_def delete_conv')

theorem missing_file_dropped_witness:
  "getmtime (fsys w_vanished) ''gone.dat'' = Inl FileNotFoundError
   \<and> file_timestamps (hdl (process_file w_vanished 9 ''gone.dat'')) = [(''a.dat'', 6)]
   \<and> processed_mtimes (hdl (process_file w_vanished 9 ''gone.dat'')) ''gone.dat'' = None
   \<and> logged (process_file w_vanished 9 ''gone.dat'')
       = [Info_Processing ''gone.dat'', Warning_Disappeared ''gone.dat'']
   \<and> Info_Processing ''a.dat''
       \<in> set (logged (process_files w_vanished (\<lambda>p. 9) [''gone.dat'', ''a.dat'']))"
proof -
  have g: "getmtime (fsys w_vanished) ''gone.dat'' = Inl FileNotFoundError"
    by (simp add: w_vanished_def fs_seen_def getmtime_def stat_def)
  show ?thesis
    using g missing_file_dropped [OF g, of 9 "[''a.dat'']" "\<lambda>p. 9"]
    by (simp add: w_vanished_def init_handler_def)
qed

text \<open>
  C1, as the code has it.  \<^const>\<open>convert_lr_to_epic\<close> catches its own failure, logs it
  and returns, so the dispatcher cannot tell a failed conversion from a successful one:
  it removes the path from \<open>file_timestamps\<close> and stores the modification time it
  captured before the call in \<open>processed_mtimes\<close>.  The failure shows only in the log.
\<close>

theorem failed_conversion_marked:
  assumes "getmtime (fsys w) p = Inr m"
      and "convert_try (fsys w) now p (output_dir (hdl w)) = (Some e, fs', lg)"
  shows "hdl (process_file w now p)
       = (hdl w)\<lparr>processed_mtimes := (processed_mtimes (hdl w))(p \<mapsto> m),
                 file_timestamps := AList.delete p (file_timestamps (hdl w))\<rparr>
     \<and> processed_mtimes (hdl (process_file w now p)) p = Some m
     \<and> map_of (file_timestamps (hdl (process_file w now p))) p = None
     \<and> logged (process_file w now p)
         = logged w @ [Info_Processing p] @ lg @ [Error_Failed_to_convert p e]"
  using assms by (simp add: process_file_def convert_lr_to_epic_def Let_def delete_conv')

lemma convert_try_unwritable:
  "convert_try fs_unwritable 1704103400 ''a.dat'' ''out'' = (Some PermissionError, fs_unwritable, [])"
  by (simp add: convert_try_def getctime_def stat_def fs_unwritable_def fromtimestamp_10h
      fromtimestamp_10h03 read_text_def readlines_def makedirs_def format_defs)

theorem failed_conversion_marked_witness:
  "getmtime (fsys w_unwritable) ''a.dat'' = Inr 1704103300
   \<and> convert_try (fsys w_unwritable) 1704103400 ''a.dat'' (output_dir (hdl w_unwritable))
       = (Some PermissionError, fs_unwritable, [])
   \<and> processed_mtimes (hdl (process_file w_unwritable 1704103400 ''a.dat'')) ''a.dat''
       = Some 1704103300
   \<and> file_timestamps (hdl (process_file w_unwritable 1704103400 ''a.dat'')) = []"
proof -
  have g: "getmtime (fsys w_unwritable) ''a.dat'' = Inr 1704103300"
    by (simp add: w_unwritable_def fs_unwritable_def getmtime_def stat_def)
  have c: "convert_try (fsys w_unwritable) 1704103400 ''a.dat'' (output_dir (hdl w_unwritable))
       = (Some PermissionError, fs_unwritable, [])"
    using convert_try_unwritable by (simp add: w_unwritable_def init_handler_def)
  show ?thesis
    using g c failed_conversion_marked [OF g c]
    by (simp add: w_unwritable_def init_handler_def)
qed

text \<open>
  The claim as written has the dispatcher make no marker update when the conversion
  fails.  Here the conversion fails with PermissionError, and the marker of the path, unset
  before, is set.
\<close>

theorem failed_conversion_counterexample:
  "fst (convert_try (fsys w_unwritable) 1704103400 ''a.dat'' (output_dir (hdl w_unwritable)))
     = Some PermissionError
   \<and> processed_mtimes (hdl w_unwritable) ''a.dat'' = None
   \<and> processed_mtimes (hdl (process_file w_unwritable 1704103400 ''a.dat'')) ''a.dat''
       = Some 1704103300"
  using convert_try_unwritable
  by (simp add: process_file_def convert_lr_to_epic_def w_unwritable_def init_handler_def
      getmtime_def stat_def fs_unwritable_def)

subsection \<open>The conversion of lines\<close>








subsection \<open>The output file\<close>

text \<open>
  C8.  Take a conversion that completes, with \<open>cl\<close> the lines converted from the source
  file.  When the output file of that day is not there before, it holds the header and
  then the lines of \<open>cl\<close>; when it is there with text \<open>old\<close>, it holds \<open>old\<close> and then
  the lines of \<open>cl\<close>, with no header.  A second conversion that completes and has the
  same output file adds its lines \<open>cl'\<close> at the end: the header stands once.  And whether
  a conversion completes or not, whatever a file held before is still the beginning of
  what it holds after.
\<close>

theorem header_once:
  "(convert_try fs now p ob = (None, fs1, lg1) \<and> fromtimestamp now = Inr now_dt \<longrightarrow>
      (\<exists>c base_time text cl lg0.
          getctime fs p = Inr c \<and> fromtimestamp c = Inr base_time \<and> read_text fs p = Inr text
        \<and> convert_lines base_time p (readlines text) [] [] = (Inr cl, lg0)
        \<and> (\<not> isfile fs (output_file_path ob now_dt) \<longrightarrow>
              read_text fs1 (output_file_path ob now_dt) = Inr (header @ concat cl))
        \<and> (\<forall>old. read_text fs (output_file_path ob now_dt) = Inr old \<longrightarrow>
              read_text fs1 (output_file_path ob now_dt) = Inr (old @ concat cl))
        \<and> (\<forall>now' p' fs2 lg2 now_dt'.
              convert_try fs1 now' p' ob = (None, fs2, lg2) \<and> fromtimestamp now' = Inr now_dt'
              \<and> output_file_path ob now_dt' = output_file_path ob now_dt \<longrightarrow>
              (\<exists>c' base_time' text' cl' lg0'.
                  getctime fs1 p' = Inr c' \<and> fromtimestamp c' = Inr base_time'
                \<and> read_text fs1 p' = Inr text'
                \<and> convert_lines base_time' p' (readlines text') [] [] = (Inr cl', lg0')
                \<and> read_text fs2 (output_file_path ob now_dt) =
                     Inr ((case read_text fs (output_file_path ob now_dt) of
                             Inr old \<Rightarrow> old | Inl e \<Rightarrow> header) @ concat cl @ concat cl')))))
   \<and> (\<forall>r fs' lg q old. convert_try fs now p ob = (r, fs', lg) \<and> read_text fs q = Inr old \<longrightarrow>
         (\<exists>suffix. read_text fs' q = Inr (old @ suffix)))"
proof (intro conjI impI allI)
  assume a: "convert_try fs now p ob = (None, fs1, lg1) \<and> fromtimestamp now = Inr now_dt"
  let ?out = "output_file_path ob now_dt"
  from convert_try_content [of fs now p ob fs1 lg1 now_dt] a
  obtain c base_time content cl lg0 where
    src: "getctime fs p = Inr c" "fromtimestamp c = Inr base_time" "read_text fs p = Inr content"
      "convert_lines base_time p (readlines content) [] [] = (Inr cl, lg0)"
    and rd: "read_text fs1 ?out =
               Inr ((case read_text fs ?out of Inr old \<Rightarrow> old | Inl e \<Rightarrow> header) @ concat cl)"
    by auto
  have first: "\<not> isfile fs ?out \<longrightarrow> read_text fs1 ?out = Inr (header @ concat cl)"
    using rd by (cases "read_text fs ?out") (auto simp: isfile_read_text)
  have later: "\<forall>old. read_text fs ?out = Inr old \<longrightarrow> read_text fs1 ?out = Inr (old @ concat cl)"
    using rd by auto
  have twice: "\<forall>now' p' fs2 lg2 now_dt'.
              convert_try fs1 now' p' ob = (None, fs2, lg2) \<and> fromtimestamp now' = Inr now_dt'
              \<and> output_file_path ob now_dt' = ?out \<longrightarrow>
              (\<exists>c' base_time' text' cl' lg0'.
                  getctime fs1 p' = Inr c' \<and> fromtimestamp c' = Inr base_time'
                \<and> read_text fs1 p' = Inr text'
                \<and> convert_lines base_time' p' (readlines text') [] [] = (Inr cl', lg0')
                \<and> read_text fs2 ?out =
                     Inr ((case read_text fs ?out of Inr old \<Rightarrow> old | Inl e \<Rightarrow> header)
                          @ concat cl @ concat cl'))"
  proof (intro allI impI)
    fix now' p' fs2 lg2 now_dt'
    assume b: "convert_try fs1 now' p' ob = (None, fs2, lg2) \<and> fromtimestamp now' = Inr now_dt'
              \<and> output_file_path ob now_dt' = ?out"
    from convert_try_content [of fs1 now' p' ob fs2 lg2 now_dt'] b
    obtain c' base_time' content' cl' lg0' where
      src': "getctime fs1 p' = Inr c'" "fromtimestamp c' = Inr base_time'" "read_text fs1 p' = Inr content'"
        "convert_lines base_time' p' (readlines content') [] [] = (Inr cl', lg0')"
      and rd': "read_text fs2 ?out =
               Inr ((case read_text fs1 ?out of Inr old \<Rightarrow> old | Inl e \<Rightarrow> header) @ concat cl')"
      by auto
    have "read_text fs2 ?out =
        Inr ((case read_text fs ?out of Inr old \<Rightarrow> old | Inl e \<Rightarrow> header) @ concat cl @ concat cl')"
      using rd' by (simp add: rd)
    with src' show "\<exists>c' base_time' text' cl' lg0'.
                  getctime fs1 p' = Inr c' \<and> fromtimestamp c' = Inr base_time'
                \<and> read_text fs1 p' = Inr text'
                \<and> convert_lines base_time' p' (readlines text') [] [] = (Inr cl', lg0')
                \<and> read_text fs2 ?out =
                     Inr ((case read_text fs ?out of Inr old \<Rightarrow> old | Inl e \<Rightarrow> header)
                          @ concat cl @ concat cl')"
      by blast
  qed
  from src first later twice
  show "\<exists>c base_time text cl lg0.
          getctime fs p = Inr c \<and> fromtimestamp c = Inr base_time \<and> read_text fs p = Inr text
        \<and> convert_lines base_time p (readlines text) [] [] = (Inr cl, lg0)
        \<and> (\<not> isfile fs ?out \<longrightarrow> read_text fs1 ?out = Inr (header @ concat cl))
        \<and> (\<forall>old. read_text fs ?out = Inr old \<longrightarrow> read_text fs1 ?out = Inr (old @ concat cl))
        \<and> (\<forall>now' p' fs2 lg2 now_dt'.
              convert_try fs1 now' p' ob = (None, fs2, lg2) \<and> fromtimestamp now' = Inr now_dt'
              \<and> output_file_path ob now_dt' = ?out \<longrightarrow>
              (\<exists>c' base_time' text' cl' lg0'.
                  getctime fs1 p' = Inr c' \<and> fromtimestamp c' = Inr base_time'
                \<and> read_text fs1 p' = Inr text'
                \<and> convert_lines base_time' p' (readlines text') [] [] = (Inr cl', lg0')
                \<and> read_text fs2 ?out =
                     Inr ((case read_text fs ?out of Inr old \<Rightarrow> old | Inl e \<Rightarrow> header)
                          @ concat cl @ concat cl')))"
    by blast
next
  fix r fs' lg q old
  assume "convert_try fs now p ob = (r, fs', lg) \<and> read_text fs q = Inr old"
  then show "\<exists>suffix. read_text fs' q = Inr (old @ suffix)"
    using convert_try_prefix [of fs now p ob r fs' lg q old] by simp
qed


theorem header_once_witness:
  "convert_try fs_one 1704103400 ''a.dat'' ''out''
     = (None, fs_once, [Info_Appended 1 ''out/2024/2024_01_01/LR.txt''])
   \<and> fromtimestamp 1704103400
       = Inr \<lparr>year = 2024, month = 1, day = 1, hour = 10, minute = 3, second = 20, microsecond = 0\<rparr>
   \<and> \<not> isfile fs_one ''out/2024/2024_01_01/LR.txt''
   \<and> read_text fs_once ''out/2024/2024_01_01/LR.txt'' = Inr (header @ line_high)
   \<and> convert_try fs_once 1704103500 ''a.dat'' ''out''
       = (None, fs_twice, [Info_Appended 1 ''out/2024/2024_01_01/LR.txt''])
   \<and> fromtimestamp 1704103500
       = Inr \<lparr>year = 2024, month = 1, day = 1, hour = 10, minute = 5, second = 0, microsecond = 0\<rparr>
   \<and> read_text fs_twice ''out/2024/2024_01_01/LR.txt'' = Inr (header @ line_high @ line_high)
   \<and> read_text fs_one ''a.dat'' = Inr (''2.5'' @ [TAB] @ ''HIGH'' @ [LF])
   \<and> (\<exists>suffix. read_text fs_once ''a.dat'' = Inr ((''2.5'' @ [TAB] @ ''HIGH'' @ [LF]) @ suffix))"
proof -
  let ?t1 = "\<lparr>year = 2024, month = 1, day = 1, hour = 10, minute = 3, second = 20, microsecond = 0\<rparr>"
  let ?t2 = "\<lparr>year = 2024, month = 1, day = 1, hour = 10, minute = 5, second = 0, microsecond = 0\<rparr>"
  have src: "getctime fs_one ''a.dat'' = Inr 1704103200"
      "read_text fs_one ''a.dat'' = Inr (''2.5'' @ [TAB] @ ''HIGH'' @ [LF])"
      "getctime fs_once ''a.dat'' = Inr 1704103200"
      "read_text fs_once ''a.dat'' = Inr (''2.5'' @ [TAB] @ ''HIGH'' @ [LF])"
    by (simp_all add: getctime_def read_text_def stat_def fs_one_def fs_once_def)
  have nf: "\<not> isfile fs_one ''out/2024/2024_01_01/LR.txt''"
    by (simp add: isfile_def stat_def fs_one_def)
  have nr: "read_text fs_one ''out/2024/2024_01_01/LR.txt'' = Inl FileNotFoundError"
    by (simp add: read_text_def stat_def fs_one_def)
  note h = header_once [of fs_one 1704103400 "''a.dat''" "''out''" fs_once
      "[Info_Appended 1 ''out/2024/2024_01_01/LR.txt'']" ?t1]
  from h convert_try_once fromtimestamp_10h03
  obtain c base_time content cl lg0 where
    cl: "getctime fs_one ''a.dat'' = Inr c" "fromtimestamp c = Inr base_time"
      "read_text fs_one ''a.dat'' = Inr content"
      "convert_lines base_time ''a.dat'' (readlines content) [] [] = (Inr cl, lg0)"
    and first: "\<not> isfile fs_one (output_file_path ''out'' ?t1) \<longrightarrow>
          read_text fs_once (output_file_path ''out'' ?t1) = Inr (header @ concat cl)"
    and twice: "\<forall>now' p' fs2 lg2 now_dt'.
          convert_try fs_once now' p' ''out'' = (None, fs2, lg2) \<and> fromtimestamp now' = Inr now_dt'
          \<and> output_file_path ''out'' now_dt' = output_file_path ''out'' ?t1 \<longrightarrow>
          (\<exists>c' base_time' text' cl' lg0'.
              getctime fs_once p' = Inr c' \<and> fromtimestamp c' = Inr base_time'
            \<and> read_text fs_once p' = Inr text'
            \<and> convert_lines base_time' p' (readlines text') [] [] = (Inr cl', lg0')
            \<and> read_text fs2 (output_file_path ''out'' ?t1) =
                 Inr ((case read_text fs_one (output_file_path ''out'' ?t1) of
                         Inr old \<Rightarrow> old | Inl e \<Rightarrow> header) @ concat cl @ concat cl'))"
    and keep: "\<forall>r fs' lg q old.
          convert_try fs_one 1704103400 ''a.dat'' ''out'' = (r, fs', lg) \<and> read_text fs_one q = Inr old \<longrightarrow>
          (\<exists>suffix. read_text fs' q = Inr (old @ suffix))"
    by blast
  have cl_eq: "cl = [line_high]"
    using cl src convert_lines_high [of "''a.dat''"] by (simp add: fromtimestamp_10h t10h_def)
  have one: "read_text fs_once ''out/2024/2024_01_01/LR.txt'' = Inr (header @ line_high)"
    using first nf by (simp add: out_path_once cl_eq)
  have pre: "convert_try fs_once 1704103500 ''a.dat'' ''out''
        = (None, fs_twice, [Info_Appended 1 ''out/2024/2024_01_01/LR.txt''])
      \<and> fromtimestamp 1704103500 = Inr ?t2
      \<and> output_file_path ''out'' ?t2 = output_file_path ''out'' ?t1"
    using convert_try_twice fromtimestamp_10h05 by (simp add: out_path_once out_path_twice)
  from twice [rule_format, OF pre]
  obtain c' base_time' content' cl' lg0' where
    cl': "getctime fs_once ''a.dat'' = Inr c'" "fromtimestamp c' = Inr base_time'"
      "read_text fs_once ''a.dat'' = Inr content'"
      "convert_lines base_time' ''a.dat'' (readlines content') [] [] = (Inr cl', lg0')"
    and rd2: "read_text fs_twice (output_file_path ''out'' ?t1) =
                 Inr ((case read_text fs_one (output_file_path ''out'' ?t1) of
                         Inr old \<Rightarrow> old | Inl e \<Rightarrow> header) @ concat cl @ concat cl')"
    by blast
  have cl'_eq: "cl' = [line_high]"
    using cl' src convert_lines_high [of "''a.dat''"] by (simp add: fromtimestamp_10h t10h_def)
  have two: "read_text fs_twice ''out/2024/2024_01_01/LR.txt'' = Inr (header @ line_high @ line_high)"
    using rd2 by (simp add: out_path_once cl_eq cl'_eq nr)
  have kept: "\<exists>suffix. read_text fs_once ''a.dat'' = Inr ((''2.5'' @ [TAB] @ ''HIGH'' @ [LF]) @ suffix)"
    using keep convert_try_once src(2) by blast
  show ?thesis
    using convert_try_once convert_try_twice fromtimestamp_10h03 fromtimestamp_10h05 nf one two
      src(2) kept
    by simp
qed



subsection \<open>Runs of the watcher\<close>



text \<open>
  C2.  Take any run of the watcher from its start in which the modification times a path
  is seen with never decrease.  Then the modification times with which the path is
  converted are strictly increasing, so no revision is converted twice; the marker is the
  last of them; and a revision passes the filter exactly when its modification time is
  strictly greater than the marker, or than zero while there is none.
\<close>

theorem no_revision_twice:
  assumes "sorted (mtimes_seen p (worlds (start od ip fs0) steps))"
  shows "sorted_wrt (<) (conversions_of p (run (start od ip fs0) steps))
     \<and> distinct (conversions_of p (run (start od ip fs0) steps))
     \<and> marker (run (start od ip fs0) steps) p =
         (if conversions_of p (run (start od ip fs0) steps) = [] then None
          else Some (last (conversions_of p (run (start od ip fs0) steps))))
     \<and> (\<forall>fs m. getmtime fs p = Inr m \<longrightarrow>
           should_track (hdl (run (start od ip fs0) steps)) fs p =
             Inr (marker_or_zero (run (start od ip fs0) steps) p < m))"
proof -
  let ?w = "start od ip fs0"
  have i: "well_formed (hdl ?w)" "sorted_wrt (<) (conversions_of p ?w)"
      "marker ?w p = (if conversions_of p ?w = [] then None else Some (last (conversions_of p ?w)))"
      "last_activity ?w p \<noteq> None \<longrightarrow>
         (\<exists>b. marker_or_zero ?w p < b \<and> (\<forall>m \<in> set (mtimes_seen p (worlds ?w steps)). b \<le> m))"
    using well_formed_init [of od ip]
    by (simp_all add: start_def conversions_of_def marker_def last_activity_def)
       (simp_all add: init_handler_def)
  note r = run_conversions [OF i assms]
  have d: "distinct (conversions_of p (run ?w steps))"
    using r strict_sorted_iff by blast
  have e: "\<forall>fs m. getmtime fs p = Inr m \<longrightarrow>
           should_track (hdl (run ?w steps)) fs p = Inr (marker_or_zero (run ?w steps) p < m)"
    by (simp add: should_track_def marker_or_zero_def marker_def)
  show ?thesis using r d e by blast
qed

theorem no_revision_twice_witness:
  "sorted (mtimes_seen ''a.dat'' (worlds (start ''out'' 20 fs_one) steps_twice))
   \<and> conversions_of ''a.dat'' (run (start ''out'' 20 fs_one) steps_twice)
       = [1704103300, 1704103450]
   \<and> sorted_wrt (<) (conversions_of ''a.dat'' (run (start ''out'' 20 fs_one) steps_twice))
   \<and> distinct (conversions_of ''a.dat'' (run (start ''out'' 20 fs_one) steps_twice))
   \<and> marker (run (start ''out'' 20 fs_one) steps_twice) ''a.dat'' = Some 1704103450
   \<and> getmtime fs_touched_twice ''a.dat'' = Inr 1704103450
   \<and> should_track (hdl (run (start ''out'' 20 fs_one) steps_twice)) fs_touched_twice ''a.dat''
       = Inr False"
proof -
  have s: "sorted (mtimes_seen ''a.dat'' (worlds (start ''out'' 20 fs_one) steps_twice))"
    by (simp add: mtimes_twice)
  have c: "conversions_of ''a.dat'' (run (start ''out'' 20 fs_one) steps_twice)
       = [1704103300, 1704103450]"
    by (simp add: run_twice conversions_of_def)
  note t = no_revision_twice [OF s]
  have m: "marker (run (start ''out'' 20 fs_one) steps_twice) ''a.dat'' = Some 1704103450"
    using t by (simp add: c)
  have z: "marker_or_zero (run (start ''out'' 20 fs_one) steps_twice) ''a.dat'' = 1704103450"
    by (simp add: marker_or_zero_def m)
  have e: "should_track (hdl (run (start ''out'' 20 fs_one) steps_twice)) fs_touched_twice ''a.dat''
       = Inr (marker_or_zero (run (start ''out'' 20 fs_one) steps_twice) ''a.dat'' < 1704103450)"
    using t getmtime_a(4) by blast
  show ?thesis
    using s c t m e getmtime_a(4) by (simp add: z)
qed

end
